theory Spec2Isabelle
  imports Main "HOL-Library.Char_ord" "HOL-Library.List_Lexorder" "HOL-Library.AList"
begin

section \<open>Values, exceptions and the Python built-ins the code calls\<close>

text \<open>
  The catalog API answers with JSON; \<open>response.json()\<close> turns it into Python dicts, lists,
  strings, integers, booleans and \<open>None\<close>. A dict is an association list (keys unique, looked
  up with \<open>map_of\<close>). JSON numbers are integers here: the counts the code reads are integral.
\<close>

datatype json =
    JNull
  | JBool bool
  | JInt int
  | JStr string
  | JArr "json list"
  | JObj "(string \<times> json) list"

text \<open>Every exception the two source files can raise or let through.\<close>

datatype exn =
    KeyError string
  | ValueError
  | TypeError
  | AttributeError
  | OverflowError
  | OperationalError string
  | ProgrammingError
  | SystemExit string
  | FileNotFoundError
  | NotADirectoryError
  | JSONDecodeError
  | RequestException
  | BadZipFile
  | OSError

text \<open>Sequencing of statements that may raise: the first exception ends the computation.\<close>

definition bnd :: "exn + 'a \<Rightarrow> ('a \<Rightarrow> exn + 'b) \<Rightarrow> exn + 'b" where
  "bnd m f = (case m of Inl e \<Rightarrow> Inl e | Inr x \<Rightarrow> f x)"

text \<open>Python truthiness: \<open>if x:\<close> and \<open>not x\<close>.\<close>

fun truthy :: "json \<Rightarrow> bool" where
  "truthy JNull = False"
| "truthy (JBool b) = b"
| "truthy (JInt i) = (i \<noteq> 0)"
| "truthy (JStr s) = (s \<noteq> [])"
| "truthy (JArr xs) = (xs \<noteq> [])"
| "truthy (JObj kvs) = (kvs \<noteq> [])"

text \<open>\<open>d.get(k, default)\<close>: only a dict has the method.\<close>

fun py_get :: "json \<Rightarrow> string \<Rightarrow> json \<Rightarrow> exn + json" where
  "py_get (JObj kvs) k d = Inr (case map_of kvs k of None \<Rightarrow> d | Some v \<Rightarrow> v)"
| "py_get _ k d = Inl AttributeError"

text \<open>\<open>d[k]\<close> with a string key: KeyError on a dict without the key, TypeError on anything
  that is not a dict (a list or a string wants an integer index, the rest is not subscriptable).\<close>

fun py_item :: "json \<Rightarrow> string \<Rightarrow> exn + json" where
  "py_item (JObj kvs) k = (case map_of kvs k of None \<Rightarrow> Inl (KeyError k) | Some v \<Rightarrow> Inr v)"
| "py_item _ k = Inl TypeError"

text \<open>\<open>k in d\<close> for a string \<open>k\<close>: key membership in a dict, element membership in a list,
  substring test in a string, TypeError elsewhere.\<close>

fun is_substring :: "string \<Rightarrow> string \<Rightarrow> bool" where
  "is_substring k [] = (k = [])"
| "is_substring k (c # cs) = (take (length k) (c # cs) = k \<or> is_substring k cs)"

fun py_in :: "string \<Rightarrow> json \<Rightarrow> exn + bool" where
  "py_in k (JObj kvs) = Inr (map_of kvs k \<noteq> None)"
| "py_in k (JArr xs) = Inr (JStr k \<in> set xs)"
| "py_in k (JStr s) = Inr (is_substring k s)"
| "py_in k _ = Inl TypeError"

subsection \<open>Decimal digits\<close>

definition is_digit :: "char \<Rightarrow> bool" where
  "is_digit c = (CHR ''0'' \<le> c \<and> c \<le> CHR ''9'')"

definition digit_val :: "char \<Rightarrow> nat" where
  "digit_val c = of_char c - 48"

definition digit_chr :: "nat \<Rightarrow> char" where
  "digit_chr n = char_of (48 + n mod 10)"

fun digits_val :: "nat \<Rightarrow> string \<Rightarrow> nat" where
  "digits_val acc [] = acc"
| "digits_val acc (c # cs) = digits_val (10 * acc + digit_val c) cs"

fun show_nat :: "nat \<Rightarrow> string" where
  "show_nat n = (if n < 10 then [digit_chr n] else show_nat (n div 10) @ [digit_chr n])"

declare show_nat.simps [simp del]

definition show_int :: "int \<Rightarrow> string" where
  "show_int i = (if i < 0 then CHR ''-'' # show_nat (nat (- i)) else show_nat (nat i))"

text \<open>The C format \<open>%0wd\<close> for a non-negative number: zero padding up to width \<open>w\<close>.\<close>

definition pad :: "nat \<Rightarrow> nat \<Rightarrow> string" where
  "pad w n = replicate (w - length (show_nat n)) (CHR ''0'') @ show_nat n"

text \<open>Whitespace as \<open>str.strip\<close> and the regular expression class \<open>\\s\<close> see it (ASCII).\<close>

definition is_space :: "char \<Rightarrow> bool" where
  "is_space c = (c \<in> set [CHR 0x09, CHR 0x0A, CHR 0x0B, CHR 0x0C, CHR 0x0D,
                              CHR 0x1C, CHR 0x1D, CHR 0x1E, CHR 0x1F, CHR 0x20])"

definition lower_chr :: "char \<Rightarrow> char" where
  "lower_chr c = (if CHR ''A'' \<le> c \<and> c \<le> CHR ''Z'' then char_of (of_char c + (32::nat)) else c)"

definition lower :: "string \<Rightarrow> string" where
  "lower s = map lower_chr s"

subsection \<open>\<open>int(x)\<close>\<close>

text \<open>
  \<open>int\<close> of a string: surrounding whitespace is stripped, one sign is allowed, then decimal
  digits, where single underscores may stand between digits. Anything else is a ValueError.
\<close>

fun digit_groups :: "string \<Rightarrow> bool" where
  "digit_groups [] = False"
| "digit_groups [c] = is_digit c"
| "digit_groups (c # d # cs) =
     (is_digit c \<and> (if d = CHR ''_'' then digit_groups cs else digit_groups (d # cs)))"

definition strip :: "string \<Rightarrow> string" where
  "strip s = rev (dropWhile is_space (rev (dropWhile is_space s)))"

definition int_of_string :: "string \<Rightarrow> exn + int" where
  "int_of_string s =
     (let t = strip s;
          neg = (t \<noteq> [] \<and> hd t = CHR ''-'');
          body = (if t \<noteq> [] \<and> (hd t = CHR ''-'' \<or> hd t = CHR ''+'') then tl t else t)
      in if digit_groups body
         then (let n = int (digits_val 0 (filter is_digit body)) in Inr (if neg then - n else n))
         else Inl ValueError)"

fun py_int :: "json \<Rightarrow> exn + int" where
  "py_int (JInt i) = Inr i"
| "py_int (JBool b) = Inr (if b then 1 else 0)"
| "py_int (JStr s) = int_of_string s"
| "py_int _ = Inl TypeError"

section \<open>Dates: \<open>datetime.strptime\<close>, \<open>strftime\<close>, \<open>isoformat\<close>, \<open>relativedelta\<close>\<close>

record datetime =
  dt_year :: nat
  dt_month :: nat
  dt_day :: nat
  dt_hour :: nat
  dt_minute :: nat
  dt_second :: nat
  dt_microsecond :: nat

definition is_leap :: "nat \<Rightarrow> bool" where
  "is_leap y = (y mod 4 = 0 \<and> (if y mod 100 = 0 then y mod 400 = 0 else True))"

definition days_in_month :: "nat \<Rightarrow> nat \<Rightarrow> nat" where
  "days_in_month y m =
     (if m = 2 then (if is_leap y then 29 else 28)
      else if m = 4 \<or> m = 6 \<or> m = 9 \<or> m = 11 then 30 else 31)"

text \<open>
  \<open>strptime\<close> compiles the format into a regular expression and matches it at the start of
  the string (CPython 3.12, \<open>Lib/_strptime.py\<close>). Each directive is an ordered alternation:
  \<^item> \<open>%Y\<close> is \<open>\\d\\d\\d\\d\<close>;
  \<^item> \<open>%m\<close> and \<open>%I\<close> are \<open>1[0-2]|0[1-9]|[1-9]\<close>;
  \<^item> \<open>%d\<close> is \<open>3[0-1]|[1-2]\\d|0[1-9]|[1-9]| [1-9]\<close>;
  \<^item> \<open>%M\<close> is \<open>[0-5]\\d|\\d\<close>;
  \<^item> \<open>%p\<close> is \<open>am|pm\<close> and \<open>%Z\<close> the known zone names, longest first, both ignoring case;
  \<^item> a blank of the format is \<open>\\s+\<close>.
  Every directive of the two formats used is followed by a character it cannot itself
  match, so the first alternative that matches is the only one that can lead to a match,
  and the functions below take it. They return the value read and the rest of the string.
\<close>

definition lit :: "char \<Rightarrow> string \<Rightarrow> string option" where
  "lit c s = (case s of [] \<Rightarrow> None | a # cs \<Rightarrow> if a = c then Some cs else None)"

definition re_ws :: "string \<Rightarrow> string option" where
  "re_ws s = (case s of [] \<Rightarrow> None
              | a # cs \<Rightarrow> if is_space a then Some (dropWhile is_space cs) else None)"

definition nonzero_digit :: "char \<Rightarrow> bool" where
  "nonzero_digit c = (CHR ''1'' \<le> c \<and> c \<le> CHR ''9'')"

definition re_Y :: "string \<Rightarrow> (nat \<times> string) option" where
  "re_Y s = (if 4 \<le> length s \<and> list_all is_digit (take 4 s)
             then Some (digits_val 0 (take 4 s), drop 4 s) else None)"

fun re_m :: "string \<Rightarrow> (nat \<times> string) option" where
  "re_m (a # b # cs) =
     (if a = CHR ''1'' \<and> CHR ''0'' \<le> b \<and> b \<le> CHR ''2'' then Some (10 + digit_val b, cs)
      else if a = CHR ''0'' \<and> nonzero_digit b then Some (digit_val b, cs)
      else if nonzero_digit a then Some (digit_val a, b # cs)
      else None)"
| "re_m [a] = (if nonzero_digit a then Some (digit_val a, []) else None)"
| "re_m [] = None"

fun re_d :: "string \<Rightarrow> (nat \<times> string) option" where
  "re_d (a # b # cs) =
     (if a = CHR ''3'' \<and> CHR ''0'' \<le> b \<and> b \<le> CHR ''1'' then Some (30 + digit_val b, cs)
      else if CHR ''1'' \<le> a \<and> a \<le> CHR ''2'' \<and> is_digit b
        then Some (10 * digit_val a + digit_val b, cs)
      else if a = CHR ''0'' \<and> nonzero_digit b then Some (digit_val b, cs)
      else if nonzero_digit a then Some (digit_val a, b # cs)
      else if a = CHR '' '' \<and> nonzero_digit b then Some (digit_val b, cs)
      else None)"
| "re_d [a] = (if nonzero_digit a then Some (digit_val a, []) else None)"
| "re_d [] = None"

fun re_M :: "string \<Rightarrow> (nat \<times> string) option" where
  "re_M (a # b # cs) =
     (if CHR ''0'' \<le> a \<and> a \<le> CHR ''5'' \<and> is_digit b
        then Some (10 * digit_val a + digit_val b, cs)
      else if is_digit a then Some (digit_val a, b # cs)
      else None)"
| "re_M [a] = (if is_digit a then Some (digit_val a, []) else None)"
| "re_M [] = None"

text \<open>\<open>%p\<close>: the result is True for PM.\<close>

definition re_p :: "string \<Rightarrow> (bool \<times> string) option" where
  "re_p s = (if lower (take 2 s) = ''am'' then Some (False, drop 2 s)
             else if lower (take 2 s) = ''pm'' then Some (True, drop 2 s)
             else None)"

text \<open>
  \<open>%Z\<close> knows \<open>utc\<close>, \<open>gmt\<close> and the two names of the machine's local zone
  (\<open>time.tzname\<close>, a parameter here), tried longest first.
\<close>

definition zone_names :: "string list \<Rightarrow> string list" where
  "zone_names tzname = rev (sort_key length (remdups (''utc'' # ''gmt'' # map lower tzname)))"

definition re_Z :: "string list \<Rightarrow> string \<Rightarrow> (string \<times> string) option" where
  "re_Z tzname s =
     (case filter (\<lambda>n. lower (take (length n) s) = n) (zone_names tzname) of
        [] \<Rightarrow> None
      | n # _ \<Rightarrow> Some (n, drop (length n) s))"

text \<open>The hour of \<open>%I\<close> with \<open>%p\<close>: 12 AM is 0, 12 PM is 12, other PM hours gain 12.\<close>

definition hour24 :: "nat \<Rightarrow> bool \<Rightarrow> nat" where
  "hour24 h pm = (if pm then (if h \<noteq> 12 then h + 12 else h) else (if h = 12 then 0 else h))"

text \<open>The date check of the \<open>datetime\<close> constructor (the regular expressions bound month,
  hour and minute already; the year 0 and a day beyond the month's length are refused).\<close>

definition valid_date :: "nat \<Rightarrow> nat \<Rightarrow> nat \<Rightarrow> bool" where
  "valid_date y m d = (1 \<le> y \<and> d \<le> days_in_month y m)"

text \<open>\<open>datetime.strptime(s, "%Y-%m-%d %I:%M%p %Z")\<close>; text left after the match is an error.\<close>

definition strptime_last_updated :: "string list \<Rightarrow> string \<Rightarrow> exn + datetime" where
  "strptime_last_updated tzname s =
     (case Option.bind (re_Y s) (\<lambda>(y, s1).
           Option.bind (lit (CHR ''-'') s1) (\<lambda>s2.
           Option.bind (re_m s2) (\<lambda>(m, s3).
           Option.bind (lit (CHR ''-'') s3) (\<lambda>s4.
           Option.bind (re_d s4) (\<lambda>(d, s5).
           Option.bind (re_ws s5) (\<lambda>s6.
           Option.bind (re_m s6) (\<lambda>(h, s7).
           Option.bind (lit (CHR '':'') s7) (\<lambda>s8.
           Option.bind (re_M s8) (\<lambda>(mi, s9).
           Option.bind (re_p s9) (\<lambda>(pm, s10).
           Option.bind (re_ws s10) (\<lambda>s11.
           Option.bind (re_Z tzname s11) (\<lambda>(z, s12).
             Some (y, m, d, h, mi, pm, s12))))))))))))) of
        None \<Rightarrow> Inl ValueError
      | Some (y, m, d, h, mi, pm, rest) \<Rightarrow>
          if rest \<noteq> [] then Inl ValueError
          else if \<not> valid_date y m d then Inl ValueError
          else Inr \<lparr>dt_year = y, dt_month = m, dt_day = d, dt_hour = hour24 h pm,
                    dt_minute = mi, dt_second = 0, dt_microsecond = 0\<rparr>)"

text \<open>\<open>datetime.strptime(s, "%Y-%m-%d")\<close>.\<close>

definition strptime_added :: "string \<Rightarrow> exn + datetime" where
  "strptime_added s =
     (case Option.bind (re_Y s) (\<lambda>(y, s1).
           Option.bind (lit (CHR ''-'') s1) (\<lambda>s2.
           Option.bind (re_m s2) (\<lambda>(m, s3).
           Option.bind (lit (CHR ''-'') s3) (\<lambda>s4.
           Option.bind (re_d s4) (\<lambda>(d, s5).
             Some (y, m, d, s5)))))) of
        None \<Rightarrow> Inl ValueError
      | Some (y, m, d, rest) \<Rightarrow>
          if rest \<noteq> [] then Inl ValueError
          else if \<not> valid_date y m d then Inl ValueError
          else Inr \<lparr>dt_year = y, dt_month = m, dt_day = d, dt_hour = 0,
                    dt_minute = 0, dt_second = 0, dt_microsecond = 0\<rparr>)"

text \<open>\<open>strftime("%Y-%m-%d %H:%M:%S")\<close> and \<open>strftime("%Y-%m-%d")\<close>. The year is padded to
  four digits (every platform agrees from the year 1000 on).\<close>

definition strftime_date :: "datetime \<Rightarrow> string" where
  "strftime_date t = pad 4 (dt_year t) @ ''-'' @ pad 2 (dt_month t) @ ''-'' @ pad 2 (dt_day t)"

definition strftime_canonical :: "datetime \<Rightarrow> string" where
  "strftime_canonical t =
     strftime_date t @ '' '' @ pad 2 (dt_hour t) @ '':'' @ pad 2 (dt_minute t) @ '':''
       @ pad 2 (dt_second t)"

text \<open>\<open>datetime.isoformat()\<close>: a \<open>T\<close> between date and time, the microseconds only when
  they are not zero.\<close>

definition isoformat :: "datetime \<Rightarrow> string" where
  "isoformat t =
     strftime_date t @ ''T'' @ pad 2 (dt_hour t) @ '':'' @ pad 2 (dt_minute t) @ '':''
       @ pad 2 (dt_second t)
       @ (if dt_microsecond t \<noteq> 0 then ''.'' @ pad 6 (dt_microsecond t) else [])"

text \<open>\<open>dt - relativedelta(years=2)\<close>: two years earlier, the day clipped to the length of
  the month (29 February becomes 28 February); no year before the year 1.\<close>

definition minus_two_years :: "datetime \<Rightarrow> exn + datetime" where
  "minus_two_years t =
     (if dt_year t < 3 then Inl ValueError
      else Inr (t\<lparr>dt_year := dt_year t - 2,
                  dt_day := min (days_in_month (dt_year t - 2) (dt_month t)) (dt_day t)\<rparr>))"

section \<open>The store: the SQLite database behind \<open>dbutils.py\<close>\<close>

text \<open>
  The SQL engine is outside the repository. Modelled here is what the statements of
  \<open>dbutils.py\<close> rely on: the storage classes NULL, INTEGER and TEXT; the binding of Python
  values to parameters (\<open>None\<close>, integers up to 64 bits and strings; a list or a dict is
  refused with ProgrammingError); the TEXT affinity of the \<open>VARCHAR\<close> and \<open>TEXT\<close> columns;
  a table as the list of its rows in insertion order; and OperationalError
  (\<open>no such table\<close>) from a statement that names a table that does not exist, raised when
  the statement is prepared, before any parameter is bound. INTEGER and NUMERIC affinity
  would turn a text that reads as a number into that number; the values this code stores
  in such columns are integers, NULL, the empty text or a formatted date, which affinity
  leaves alone, and the findings columns are not compared anywhere.
\<close>

datatype sqlval = SNull | SInt int | SText string

record plugin_row =
  slug :: sqlval
  version :: sqlval
  active_installs :: sqlval
  downloaded :: sqlval
  last_updated :: sqlval
  added_date :: sqlval
  download_link :: sqlval

record result_row =
  res_id :: sqlval
  res_slug :: sqlval
  file_path :: sqlval
  check_id :: sqlval
  start_line :: sqlval
  end_line :: sqlval
  vuln_lines :: sqlval

text \<open>The database: each table is absent (\<open>None\<close>) until the schema is created.\<close>

record db =
  PluginData :: "plugin_row list option"
  PluginResults :: "result_row list option"

fun bind_param :: "json \<Rightarrow> exn + sqlval" where
  "bind_param JNull = Inr SNull"
| "bind_param (JBool b) = Inr (SInt (if b then 1 else 0))"
| "bind_param (JInt i) =
     (if - (2 ^ 63) \<le> i \<and> i < 2 ^ 63 then Inr (SInt i) else Inl OverflowError)"
| "bind_param (JStr s) = Inr (SText s)"
| "bind_param (JArr xs) = Inl ProgrammingError"
| "bind_param (JObj kvs) = Inl ProgrammingError"

fun bind_params :: "json list \<Rightarrow> exn + sqlval list" where
  "bind_params [] = Inr []"
| "bind_params (v # vs) =
     (case bind_param v of
        Inl e \<Rightarrow> Inl e
      | Inr x \<Rightarrow> (case bind_params vs of Inl e \<Rightarrow> Inl e | Inr xs \<Rightarrow> Inr (x # xs)))"

fun text_affinity :: "sqlval \<Rightarrow> sqlval" where
  "text_affinity (SInt i) = SText (show_int i)"
| "text_affinity v = v"

text \<open>
  \<open>INSERT ... ON CONFLICT(slug) DO UPDATE SET\<close> every other column to the new value. A
  conflict is a stored row with the same slug; NULL never conflicts (a primary key that is
  not \<open>INTEGER PRIMARY KEY\<close> admits NULLs, and they are all distinct).
\<close>

definition do_update :: "plugin_row \<Rightarrow> plugin_row \<Rightarrow> plugin_row" where
  "do_update excluded old =
     old\<lparr>version := version excluded,
         active_installs := active_installs excluded,
         downloaded := downloaded excluded,
         last_updated := last_updated excluded,
         added_date := added_date excluded,
         download_link := download_link excluded\<rparr>"

definition upsert_row :: "plugin_row \<Rightarrow> plugin_row list \<Rightarrow> plugin_row list" where
  "upsert_row r rows =
     (if slug r \<noteq> SNull \<and> slug r \<in> slug ` set rows
      then map (\<lambda>x. if slug x = slug r then do_update r x else x) rows
      else rows @ [r])"

definition no_such_table :: "string \<Rightarrow> exn" where
  "no_such_table t = OperationalError (''no such table: '' @ t)"

text \<open>The seven bound parameters as the row of the \<open>VALUES\<close> clause; a different number of
  bindings is a ProgrammingError.\<close>

definition values_row :: "sqlval list \<Rightarrow> plugin_row option" where
  "values_row vs =
     (case vs of
        [a, b, c, d, e, f, g] \<Rightarrow>
          Some \<lparr>slug = text_affinity a, version = text_affinity b, active_installs = c,
                downloaded = d, last_updated = e, added_date = f,
                download_link = text_affinity g\<rparr>
      | _ \<Rightarrow> None)"

definition execute_upsert :: "db \<Rightarrow> json list \<Rightarrow> exn + db" where
  "execute_upsert cur params =
     (case PluginData cur of
        None \<Rightarrow> Inl (no_such_table ''PluginData'')
      | Some rows \<Rightarrow>
          bnd (bind_params params) (\<lambda>vs.
            case values_row vs of
              None \<Rightarrow> Inl ProgrammingError
            | Some r \<Rightarrow> Inr (cur\<lparr>PluginData := Some (upsert_row r rows)\<rparr>)))"

text \<open>The plain \<open>INSERT INTO PluginResults\<close>. The \<open>id\<close> column is declared
  \<open>INT AUTO_INCREMENT PRIMARY KEY\<close>, which SQLite reads as an ordinary column: it stays NULL.\<close>

definition execute_insert_result :: "db \<Rightarrow> json list \<Rightarrow> exn + db" where
  "execute_insert_result cur params =
     (case PluginResults cur of
        None \<Rightarrow> Inl (no_such_table ''PluginResults'')
      | Some rows \<Rightarrow>
          bnd (bind_params params) (\<lambda>vs.
            case vs of
              [a, b, c, d, e, f] \<Rightarrow>
                Inr (cur\<lparr>PluginResults := Some (rows @
                  [\<lparr>res_id = SNull, res_slug = text_affinity a, file_path = text_affinity b,
                    check_id = text_affinity c, start_line = d, end_line = e,
                    vuln_lines = text_affinity f\<rparr>])\<rparr>)
            | _ \<Rightarrow> Inl ProgrammingError))"

text \<open>The handler every operation of \<open>dbutils.py\<close> wraps around \<open>cursor.execute\<close>:
  \<open>except sqlite3.ProgrammingError: raise SystemExit(...)\<close>. Other exceptions pass.\<close>

definition table_missing_message :: string where
  "table_missing_message =
     ''Table does not exist. Please run with the '' @ [CHR 0x27] @ ''--create-schema''
       @ [CHR 0x27] @ '' flag to create the table.''"

definition except_ProgrammingError :: "exn + 'a \<Rightarrow> exn + 'a" where
  "except_ProgrammingError r =
     (case r of Inl ProgrammingError \<Rightarrow> Inl (SystemExit table_missing_message) | _ \<Rightarrow> r)"

subsection \<open>\<open>insert_plugin_into_db\<close>\<close>

text \<open>The two date conversions; \<open>strptime\<close> wants a string.\<close>

fun convert_last_updated :: "string list \<Rightarrow> json \<Rightarrow> exn + json" where
  "convert_last_updated tzname (JStr s) =
     bnd (strptime_last_updated tzname s) (\<lambda>t. Inr (JStr (strftime_canonical t)))"
| "convert_last_updated tzname _ = Inl TypeError"

fun convert_added :: "json \<Rightarrow> exn + json" where
  "convert_added (JStr s) = bnd (strptime_added s) (\<lambda>t. Inr (JStr (strftime_date t)))"
| "convert_added _ = Inl TypeError"

text \<open>Lines 88 to 108, statement by statement: the tuple \<open>data\<close>, evaluated left to
  right after the two date conversions.\<close>

definition plugin_data :: "string list \<Rightarrow> json \<Rightarrow> exn + json list" where
  "plugin_data tzname plugin =
     bnd (py_get plugin ''last_updated'' JNull) (\<lambda>lu0.
     bnd (py_get plugin ''added'' JNull) (\<lambda>ad0.
     bnd (if truthy lu0 then convert_last_updated tzname lu0 else Inr lu0) (\<lambda>lu.
     bnd (if truthy ad0 then convert_added ad0 else Inr ad0) (\<lambda>ad.
     bnd (py_item plugin ''slug'') (\<lambda>sl.
     bnd (py_get plugin ''version'' (JStr ''N/A'')) (\<lambda>ver.
     bnd (bnd (py_get plugin ''active_installs'' (JInt 0)) py_int) (\<lambda>ai.
     bnd (bnd (py_get plugin ''downloaded'' (JInt 0)) py_int) (\<lambda>dl.
     bnd (py_get plugin ''download_link'' (JStr ''N/A'')) (\<lambda>link.
       Inr [sl, ver, JInt ai, JInt dl, lu, ad, link])))))))))"

text \<open>Lines 110 to 115: the statement is executed inside the handler.\<close>

definition insert_plugin_into_db :: "string list \<Rightarrow> db \<Rightarrow> json \<Rightarrow> exn + db" where
  "insert_plugin_into_db tzname cur plugin =
     bnd (plugin_data tzname plugin) (\<lambda>data.
       except_ProgrammingError (execute_upsert cur data))"

subsection \<open>\<open>insert_result_into_db\<close>\<close>

definition insert_result_into_db :: "db \<Rightarrow> json \<Rightarrow> json \<Rightarrow> exn + db" where
  "insert_result_into_db cur plugin_name result =
     bnd (py_item result ''path'') (\<lambda>p.
     bnd (py_item result ''check_id'') (\<lambda>c.
     bnd (bnd (py_item result ''start'') (\<lambda>x. py_item x ''line'')) (\<lambda>l1.
     bnd (bnd (py_item result ''end'') (\<lambda>x. py_item x ''line'')) (\<lambda>l2.
     bnd (bnd (py_item result ''extra'') (\<lambda>x. py_item x ''lines'')) (\<lambda>ls.
       except_ProgrammingError
         (execute_insert_result cur [plugin_name, p, c, l1, l2, ls]))))))"

subsection \<open>\<open>select_plugins_for_download\<close>\<close>

text \<open>
  SQL comparison: NULL compares to nothing (the result is NULL, here \<open>None\<close>), an INTEGER
  is less than any TEXT, two texts compare byte by byte (\<open>memcmp\<close>, the BINARY collation).
\<close>

fun sql_less :: "sqlval \<Rightarrow> sqlval \<Rightarrow> bool option" where
  "sql_less SNull _ = None"
| "sql_less _ SNull = None"
| "sql_less (SInt a) (SInt b) = Some (a < b)"
| "sql_less (SInt a) (SText t) = Some True"
| "sql_less (SText s) (SInt b) = Some False"
| "sql_less (SText s) (SText t) = Some (s < t)"

definition sql_greater :: "sqlval \<Rightarrow> sqlval \<Rightarrow> bool option" where
  "sql_greater a b = sql_less b a"

definition sql_greater_eq :: "sqlval \<Rightarrow> sqlval \<Rightarrow> bool option" where
  "sql_greater_eq a b = map_option Not (sql_less a b)"

text \<open>\<open>WHERE active_installs > ? AND last_updated >= ?\<close>: a row is returned when the
  condition is true, not when it is false or NULL.\<close>

definition where_clause :: "sqlval \<Rightarrow> sqlval \<Rightarrow> plugin_row \<Rightarrow> bool" where
  "where_clause p1 p2 r =
     (sql_greater (active_installs r) p1 = Some True
      \<and> sql_greater_eq (last_updated r) p2 = Some True)"

definition execute_select :: "db \<Rightarrow> json list \<Rightarrow> exn + (sqlval \<times> sqlval) list" where
  "execute_select cur params =
     (case PluginData cur of
        None \<Rightarrow> Inl (no_such_table ''PluginData'')
      | Some rows \<Rightarrow>
          bnd (bind_params params) (\<lambda>vs.
            case vs of
              [p1, p2] \<Rightarrow>
                Inr (map (\<lambda>r. (slug r, download_link r)) (filter (where_clause p1 p2) rows))
            | _ \<Rightarrow> Inl ProgrammingError))"

text \<open>The clock is a parameter (\<open>datetime.now()\<close>). The registered adapter sends the
  \<open>datetime\<close> parameter to the engine as its \<open>isoformat()\<close> text.\<close>

definition adapt_datetime_iso :: "datetime \<Rightarrow> json" where
  "adapt_datetime_iso val = JStr (isoformat val)"

definition select_plugins_for_download ::
  "datetime \<Rightarrow> db \<Rightarrow> int \<Rightarrow> exn + (sqlval \<times> sqlval) list" where
  "select_plugins_for_download now cur active =
     bnd (minus_two_years now) (\<lambda>two_years_ago.
       except_ProgrammingError
         (execute_select cur [JInt active, adapt_datetime_iso two_years_ago]))"

subsection \<open>Schema operations and \<open>connect_to_db\<close>\<close>

text \<open>\<open>CREATE TABLE IF NOT EXISTS\<close> and \<open>DROP TABLE IF EXISTS\<close>.\<close>

definition create_plugin_data_table :: "db \<Rightarrow> db" where
  "create_plugin_data_table cur =
     (case PluginData cur of None \<Rightarrow> cur\<lparr>PluginData := Some []\<rparr> | Some rows \<Rightarrow> cur)"

definition create_plugin_results_table :: "db \<Rightarrow> db" where
  "create_plugin_results_table cur =
     (case PluginResults cur of None \<Rightarrow> cur\<lparr>PluginResults := Some []\<rparr> | Some rows \<Rightarrow> cur)"

definition delete_results_table :: "db \<Rightarrow> db" where
  "delete_results_table cur = create_plugin_results_table (cur\<lparr>PluginResults := None\<rparr>)"

text \<open>
  \<open>connect_to_db\<close>: \<open>sqlite3.connect\<close> opens the database file (an absent file is an empty
  database, both tables absent); the tables are created only on request. Nothing looks for
  the tables when \<open>create_schema\<close> is false, so the call succeeds on an empty database. (A
  file that is not a database at all is outside this model; it is the case the handler of
  \<open>connect_to_db\<close> answers.)
\<close>

definition connect_to_db :: "bool \<Rightarrow> db \<Rightarrow> exn + db" where
  "connect_to_db create_schema database =
     Inr (if create_schema
          then create_plugin_results_table (create_plugin_data_table database)
          else database)"

section \<open>The catalog: \<open>get_plugins\<close> and \<open>write_plugins_to_db\<close>\<close>

text \<open>
  The catalog API is a function from the page number to what \<open>requests.get\<close> meets: no
  answer at all (an exception of \<open>requests\<close>), or a status code with a body that decodes as
  JSON or does not. The pages requested are logged in order.
\<close>

datatype http_result = NoAnswer | Response int "json option"

type_synonym catalog = "nat \<Rightarrow> http_result"

definition get_plugins :: "catalog \<Rightarrow> nat \<Rightarrow> nat list \<Rightarrow> (exn + json) \<times> nat list" where
  "get_plugins api page requested =
     (case api page of
        NoAnswer \<Rightarrow> (Inl RequestException, requested @ [page])
      | Response status_code body \<Rightarrow>
          if status_code = 200
          then (case body of
                  None \<Rightarrow> (Inl JSONDecodeError, requested @ [page])
                | Some j \<Rightarrow> (Inr j, requested @ [page]))
          else (Inr JNull, requested @ [page]))"

text \<open>\<open>not data or k not in data\<close>; the membership test is evaluated only on a truthy value.\<close>

definition lacks :: "string \<Rightarrow> json \<Rightarrow> exn + bool" where
  "lacks k data = (if \<not> truthy data then Inr True else bnd (py_in k data) (\<lambda>b. Inr (\<not> b)))"

text \<open>\<open>range(1, total_pages + 1)\<close>: the bound must be an integer (a boolean is one).\<close>

fun page_range :: "json \<Rightarrow> exn + nat list" where
  "page_range (JInt n) = Inr (map nat [1..n])"
| "page_range (JBool b) = Inr (if b then [1] else [])"
| "page_range _ = Inl TypeError"

text \<open>\<open>for x in v\<close>: the elements of a list, the keys of a dict, the characters of a string.\<close>

fun py_iter :: "json \<Rightarrow> exn + json list" where
  "py_iter (JArr xs) = Inr xs"
| "py_iter (JObj kvs) = Inr (map (\<lambda>kv. JStr (fst kv)) kvs)"
| "py_iter (JStr s) = Inr (map (\<lambda>c. JStr [c]) s)"
| "py_iter _ = Inl TypeError"

text \<open>The inner loop: every plugin of a page is written; the first exception ends the run.\<close>

fun insert_plugins :: "string list \<Rightarrow> db \<Rightarrow> json list \<Rightarrow> exn + db" where
  "insert_plugins tzname cur [] = Inr cur"
| "insert_plugins tzname cur (plugin # plugins) =
     (case insert_plugin_into_db tzname cur plugin of
        Inl e \<Rightarrow> Inl e
      | Inr cur' \<Rightarrow> insert_plugins tzname cur' plugins)"

text \<open>The loop over the pages, lines 45 to 56. \<open>break\<close> ends it without an error.\<close>

fun store_pages ::
  "catalog \<Rightarrow> string list \<Rightarrow> nat list \<Rightarrow> db \<Rightarrow> nat list \<Rightarrow> (exn + db) \<times> nat list" where
  "store_pages api tzname [] cur requested = (Inr cur, requested)"
| "store_pages api tzname (page # pages) cur requested =
     (case get_plugins api page requested of
        (Inl e, requested') \<Rightarrow> (Inl e, requested')
      | (Inr data, requested') \<Rightarrow>
          (case lacks ''plugins'' data of
             Inl e \<Rightarrow> (Inl e, requested')
           | Inr True \<Rightarrow> (Inr cur, requested')
           | Inr False \<Rightarrow>
               (case bnd (bnd (py_item data ''plugins'') py_iter) (insert_plugins tzname cur) of
                  Inl e \<Rightarrow> (Inl e, requested')
                | Inr cur' \<Rightarrow> store_pages api tzname pages cur' requested')))"

text \<open>\<open>write_plugins_to_db\<close>, lines 33 to 56: the answer to the first request gives the
  number of pages, then the loop requests every page from 1 on.\<close>

definition write_plugins_to_db ::
  "catalog \<Rightarrow> string list \<Rightarrow> db \<Rightarrow> nat list \<Rightarrow> (exn + db) \<times> nat list" where
  "write_plugins_to_db api tzname cur requested =
     (case get_plugins api 1 requested of
        (Inl e, requested') \<Rightarrow> (Inl e, requested')
      | (Inr data, requested') \<Rightarrow>
          (case lacks ''info'' data of
             Inl e \<Rightarrow> (Inl e, requested')
           | Inr True \<Rightarrow> (Inr cur, requested')
           | Inr False \<Rightarrow>
               (case bnd (bnd (py_item data ''info'') (\<lambda>info. py_item info ''pages''))
                       page_range of
                  Inl e \<Rightarrow> (Inl e, requested')
                | Inr pages \<Rightarrow> store_pages api tzname pages cur requested')))"

text \<open>
  What the pagination claim supposes of the catalog: a page that is neither malformed nor
  empty answers 200 with a dict whose \<open>plugins\<close> is a list of plugins that the upsert
  accepts (the tuple \<open>data\<close> can be built and bound), and the first page reports the
  number of pages under \<open>info\<close>.
\<close>

definition accepted :: "string list \<Rightarrow> json \<Rightarrow> bool" where
  "accepted tzname plugin =
     (case bnd (plugin_data tzname plugin) bind_params of Inl e \<Rightarrow> False | Inr vs \<Rightarrow> True)"

definition page_ok :: "string list \<Rightarrow> http_result \<Rightarrow> bool" where
  "page_ok tzname r =
     (case r of
        Response status_code (Some (JObj kvs)) \<Rightarrow>
          status_code = 200 \<and>
          (case map_of kvs ''plugins'' of
             Some (JArr plugins) \<Rightarrow> list_all (accepted tzname) plugins
           | _ \<Rightarrow> False)
      | _ \<Rightarrow> False)"

definition reports_pages :: "nat \<Rightarrow> http_result \<Rightarrow> bool" where
  "reports_pages n r =
     (case r of
        Response status_code (Some (JObj kvs)) \<Rightarrow>
          status_code = 200 \<and>
          (case map_of kvs ''info'' of
             Some (JObj info) \<Rightarrow> map_of info ''pages'' = Some (JInt (int n))
           | _ \<Rightarrow> False)
      | _ \<Rightarrow> False)"

text \<open>An example catalog of three pages, one plugin on each, for the concrete checks.\<close>

definition three_pages :: catalog where
  "three_pages page =
     (if 1 \<le> page \<and> page \<le> 3
      then Response 200 (Some (JObj
             [(''info'', JObj [(''pages'', JInt 3)]),
              (''plugins'', JArr [JObj [(''slug'', JStr (''plugin-'' @ show_nat page))]])]))
      else Response 404 None)"

text \<open>
  The order of two \<open>datetime\<close> values as points in time (Python's \<open>t >= u\<close>): the order of
  their fields from the year down. This is what "within two years of the current time"
  means for a stored timestamp \<open>t\<close> and \<open>u = now - relativedelta(years=2)\<close>; the code
  compares the two texts instead.
\<close>

definition not_before :: "datetime \<Rightarrow> datetime \<Rightarrow> bool" where
  "not_before t u =
     ([dt_year u, dt_month u, dt_day u, dt_hour u, dt_minute u, dt_second u, dt_microsecond u]
      \<le> [dt_year t, dt_month t, dt_day t, dt_hour t, dt_minute t, dt_second t,
          dt_microsecond t])"

section \<open>The workspace: files, archives and \<open>download_and_extract_plugin\<close>\<close>

text \<open>
  The directory \<open>download_dir/plugins\<close> is a finite map from paths (lists of components
  below that directory) to nodes. A file holds a JSON document or anything else; only
  \<open>json.load\<close> looks into a file. A slug is one path component.
\<close>

type_synonym path = "string list"

datatype content = Json json | Other string

datatype node = Dir | File content

type_synonym fs = "(path \<times> node) list"

definition lookup :: "fs \<Rightarrow> path \<Rightarrow> node option" where
  "lookup fls p = (if p = [] then Some Dir else map_of fls p)"

text \<open>\<open>os.path.exists\<close>.\<close>

definition path_exists :: "fs \<Rightarrow> path \<Rightarrow> bool" where
  "path_exists fls p = (lookup fls p \<noteq> None)"

text \<open>\<open>under p q\<close>: the path \<open>q\<close> is \<open>p\<close> or lies below \<open>p\<close>.\<close>

definition under :: "path \<Rightarrow> path \<Rightarrow> bool" where
  "under p q = (take (length p) q = p)"

text \<open>\<open>shutil.rmtree\<close>: the directory and everything below it goes; it refuses a file.\<close>

definition rmtree :: "fs \<Rightarrow> path \<Rightarrow> exn + fs" where
  "rmtree fls p =
     (case lookup fls p of
        None \<Rightarrow> Inl FileNotFoundError
      | Some (File c) \<Rightarrow> Inl NotADirectoryError
      | Some Dir \<Rightarrow> Inr (filter (\<lambda>e. \<not> under p (fst e)) fls))"

text \<open>
  Creating the directories along a path, one component after the other (\<open>os.makedirs\<close>,
  \<open>os.mkdir\<close>): an existing directory is kept, a file in the way is an error. What was
  created before an error stays, so the files are returned in either case.
\<close>

fun makedirs :: "fs \<Rightarrow> path \<Rightarrow> path \<Rightarrow> exn option \<times> fs" where
  "makedirs fls base [] = (None, fls)"
| "makedirs fls base (c # cs) =
     (case lookup fls (base @ [c]) of
        None \<Rightarrow> makedirs (AList.update (base @ [c]) Dir fls) (base @ [c]) cs
      | Some Dir \<Rightarrow> makedirs fls (base @ [c]) cs
      | Some (File x) \<Rightarrow> (Some OSError, fls))"

text \<open>
  A member of a zip archive: a directory, a file with its data, or a file whose record is
  damaged. A damaged record is detected while it is read: either before the target file is
  opened (nothing is written, \<open>None\<close>), or at the checksum after the data that was read has
  been written (\<open>Some\<close> of what reached the disk). Member names are relative paths, as
  \<open>ZipFile.extract\<close> sanitises them.
\<close>

datatype member =
    DirEntry path
  | FileEntry path content
  | CorruptEntry path "content option"

fun member_path :: "member \<Rightarrow> path" where
  "member_path (DirEntry p) = p"
| "member_path (FileEntry p c) = p"
| "member_path (CorruptEntry p c) = p"

text \<open>Opening the target for writing and writing the data.\<close>

definition write_file :: "fs \<Rightarrow> path \<Rightarrow> content \<Rightarrow> exn option \<times> fs" where
  "write_file fls p c =
     (case makedirs fls [] (butlast p) of
        (Some e, fls') \<Rightarrow> (Some e, fls')
      | (None, fls') \<Rightarrow>
          (case lookup fls' p of
             Some Dir \<Rightarrow> (Some OSError, fls')
           | _ \<Rightarrow> (None, AList.update p (File c) fls')))"

text \<open>\<open>ZipFile._extract_member\<close>.\<close>

fun extract_member :: "fs \<Rightarrow> member \<Rightarrow> exn option \<times> fs" where
  "extract_member fls (DirEntry p) = makedirs fls [] p"
| "extract_member fls (FileEntry p c) = write_file fls p c"
| "extract_member fls (CorruptEntry p None) =
     (case makedirs fls [] (butlast p) of
        (Some e, fls') \<Rightarrow> (Some e, fls')
      | (None, fls') \<Rightarrow> (Some BadZipFile, fls'))"
| "extract_member fls (CorruptEntry p (Some c)) =
     (case write_file fls p c of
        (Some e, fls') \<Rightarrow> (Some e, fls')
      | (None, fls') \<Rightarrow> (Some BadZipFile, fls'))"

text \<open>\<open>ZipFile.extractall\<close>: member after member, the first exception ends it.\<close>

fun extractall :: "fs \<Rightarrow> member list \<Rightarrow> exn option \<times> fs" where
  "extractall fls [] = (None, fls)"
| "extractall fls (m # ms) =
     (case extract_member fls m of
        (Some e, fls') \<Rightarrow> (Some e, fls')
      | (None, fls') \<Rightarrow> extractall fls' ms)"

text \<open>
  The archive source: what \<open>requests.get(download_link)\<close> meets. No answer stands for every
  exception of \<open>requests\<close> (also the one for a link that is no URL, such as \<open>N/A\<close> or
  \<open>None\<close>); otherwise a status code and a body that is a zip archive or is not.
\<close>

datatype archive = NotAZip | Zip "member list"

datatype download = Unreachable | Served int archive

type_synonym archive_source = "sqlval \<Rightarrow> download"

text \<open>What the program prints, and what it does to the outside world, in order.\<close>

datatype message =
    SkippingExisting string
  | DeletingExisting string
  | Downloading string
  | FailedToDownload string
  | FailedToUnzip string
  | AnalysisCompleted string
  | SemgrepFailed string
  | UnexpectedError string

datatype event =
    Printed message
  | Removed path
  | Requested sqlval
  | Admitted sqlval
  | Resolved sqlval

record world =
  files :: fs
  trace :: "event list"

definition emit :: "event \<Rightarrow> world \<Rightarrow> world" where
  "emit e w = w\<lparr>trace := trace w @ [e]\<rparr>"

definition say :: "bool \<Rightarrow> message \<Rightarrow> world \<Rightarrow> world" where
  "say verbose m w = (if verbose then emit (Printed m) w else w)"

text \<open>\<open>raise_for_status\<close> raises for the status codes from 400 to 599.\<close>

definition error_status :: "int \<Rightarrow> bool" where
  "error_status status_code = (400 \<le> status_code \<and> status_code < 600)"

text \<open>Lines 97 to 107: the \<open>try\<close> block with its two handlers. Exceptions other than
  those of \<open>requests\<close> and \<open>BadZipFile\<close> are not caught.\<close>

definition fetch_and_extract ::
  "archive_source \<Rightarrow> string \<Rightarrow> sqlval \<Rightarrow> bool \<Rightarrow> world \<Rightarrow> exn option \<times> world" where
  "fetch_and_extract net name link verbose w =
     (let w1 = emit (Requested link) (say verbose (Downloading name) w) in
      case net link of
        Unreachable \<Rightarrow> (None, emit (Printed (FailedToDownload name)) w1)
      | Served status_code body \<Rightarrow>
          if error_status status_code
          then (None, emit (Printed (FailedToDownload name)) w1)
          else
            (case body of
               NotAZip \<Rightarrow> (None, emit (Printed (FailedToUnzip name)) w1)
             | Zip members \<Rightarrow>
                 (case extractall (files w1) members of
                    (None, fls) \<Rightarrow> (None, w1\<lparr>files := fls\<rparr>)
                  | (Some BadZipFile, fls) \<Rightarrow>
                      (None, emit (Printed (FailedToUnzip name)) (w1\<lparr>files := fls\<rparr>))
                  | (Some e, fls) \<Rightarrow> (Some e, w1\<lparr>files := fls\<rparr>))))"

text \<open>Lines 83 to 107. The slug comes from the table; \<open>os.path.join\<close> wants a string.\<close>

definition download_and_extract_plugin ::
  "archive_source \<Rightarrow> sqlval \<Rightarrow> sqlval \<Rightarrow> bool \<Rightarrow> bool \<Rightarrow> world \<Rightarrow> exn option \<times> world" where
  "download_and_extract_plugin net slug_value link replace_downloads verbose w =
     (case slug_value of
        SText name \<Rightarrow>
          if path_exists (files w) [name]
          then
            (if \<not> replace_downloads
             then (None, say verbose (SkippingExisting name) w)
             else
               (case rmtree (files w) [name] of
                  Inl e \<Rightarrow> (Some e, say verbose (DeletingExisting name) w)
                | Inr fls \<Rightarrow>
                    fetch_and_extract net name link verbose
                      (emit (Removed [name])
                         ((say verbose (DeletingExisting name) w)\<lparr>files := fls\<rparr>))))
          else fetch_and_extract net name link verbose w
      | _ \<Rightarrow> (Some TypeError, w))"

subsection \<open>\<open>download_plugins_in_database\<close>\<close>

text \<open>
  Calling the \<open>async\<close> function creates a coroutine object and runs nothing: the operation
  is admitted (\<open>Admitted\<close>). \<open>asyncio.gather\<close> wraps the coroutines of the batch into tasks
  and the awaiting caller resumes after they are done. The body of
  \<open>download_and_extract_plugin\<close> has no \<open>await\<close>, so each task runs from start to end in
  one step of the event loop, in the order of the batch; each ends resolved (\<open>Resolved\<close>),
  with or without an exception. All tasks of the batch were scheduled before the first one
  ran, so they all run; the first exception, if any, is then raised from the \<open>await\<close>.
\<close>

fun gather ::
  "archive_source \<Rightarrow> bool \<Rightarrow> bool \<Rightarrow> (sqlval \<times> sqlval) list \<Rightarrow> world \<Rightarrow> exn option \<times> world" where
  "gather net replace_downloads verbose [] w = (None, w)"
| "gather net replace_downloads verbose (op # ops) w =
     (case download_and_extract_plugin net (fst op) (snd op) replace_downloads verbose w of
        (e, w1) \<Rightarrow>
          (case gather net replace_downloads verbose ops (emit (Resolved (fst op)) w1) of
             (e', w2) \<Rightarrow> ((case e of None \<Rightarrow> e' | Some x \<Rightarrow> Some x), w2)))"

text \<open>The loop of lines 68 to 79 with its list \<open>ongoing\<close>; after the loop the rest is
  gathered. (The progress bar is left out, and so is \<open>os.makedirs\<close> of line 61: the plugins
  directory is the root of the file map and always there.)\<close>

fun admit_all ::
  "archive_source \<Rightarrow> bool \<Rightarrow> bool \<Rightarrow> (sqlval \<times> sqlval) list \<Rightarrow> (sqlval \<times> sqlval) list
     \<Rightarrow> world \<Rightarrow> exn option \<times> world" where
  "admit_all net replace_downloads verbose [] ongoing w =
     (if length ongoing > 0 then gather net replace_downloads verbose ongoing w else (None, w))"
| "admit_all net replace_downloads verbose (plugin # plugins) ongoing w =
     (if length (ongoing @ [plugin]) = 10
      then
        (case gather net replace_downloads verbose (ongoing @ [plugin])
                (emit (Admitted (fst plugin)) w) of
           (Some e, w') \<Rightarrow> (Some e, w')
         | (None, w') \<Rightarrow> admit_all net replace_downloads verbose plugins [] w')
      else admit_all net replace_downloads verbose plugins (ongoing @ [plugin])
             (emit (Admitted (fst plugin)) w))"

definition download_plugins_in_database ::
  "archive_source \<Rightarrow> datetime \<Rightarrow> db \<Rightarrow> int \<Rightarrow> bool \<Rightarrow> bool \<Rightarrow> world \<Rightarrow> exn option \<times> world" where
  "download_plugins_in_database net now cur active replace_downloads verbose w =
     (case select_plugins_for_download now cur active of
        Inl e \<Rightarrow> (Some e, w)
      | Inr plugins \<Rightarrow> admit_all net replace_downloads verbose plugins [] w)"

section \<open>The audit: \<open>run_semgrep_and_store_results\<close>\<close>

text \<open>
  The analyzer is an external process: for a plugin directory it does not start at all,
  or exits with a code, having written an output file or not.
\<close>

datatype run_outcome = NotStarted | Exited int "content option"

type_synonym analyzer = "string \<Rightarrow> fs \<Rightarrow> run_outcome"

definition output_file :: "string \<Rightarrow> path" where
  "output_file plugin = [plugin, ''semgrep_output.json'']"

text \<open>Lines 130 to 141: \<open>subprocess.run(command, check=True)\<close> inside its \<open>try\<close>. Every
  exception of the call is caught and printed; the block itself raises nothing.\<close>

definition run_semgrep :: "analyzer \<Rightarrow> string \<Rightarrow> bool \<Rightarrow> world \<Rightarrow> world" where
  "run_semgrep semgrep plugin verbose w =
     (case semgrep plugin (files w) of
        NotStarted \<Rightarrow> emit (Printed (UnexpectedError plugin)) w
      | Exited code written \<Rightarrow>
          (let w1 = (case written of
                       None \<Rightarrow> w
                     | Some c \<Rightarrow>
                         if lookup (files w) [plugin] = Some Dir
                         then w\<lparr>files := AList.update (output_file plugin) (File c) (files w)\<rparr>
                         else w)
           in if code = 0 then say verbose (AnalysisCompleted plugin) w1
              else emit (Printed (SemgrepFailed plugin)) w1))"

text \<open>Lines 144 and 145: \<open>open(output_file, "r")\<close> and \<open>json.load\<close>, outside any \<open>try\<close>.\<close>

definition read_output :: "fs \<Rightarrow> string \<Rightarrow> exn + json" where
  "read_output fls plugin =
     (case lookup fls [plugin] of
        Some (File c) \<Rightarrow> Inl NotADirectoryError
      | _ \<Rightarrow>
          (case lookup fls (output_file plugin) of
             None \<Rightarrow> Inl FileNotFoundError
           | Some Dir \<Rightarrow> Inl OSError
           | Some (File (Json j)) \<Rightarrow> Inr j
           | Some (File (Other s)) \<Rightarrow> Inl JSONDecodeError))"

text \<open>Lines 146 to 148: every insert is committed at once, so the rows written before an
  exception stay.\<close>

fun insert_results :: "db \<Rightarrow> json \<Rightarrow> json list \<Rightarrow> exn option \<times> db" where
  "insert_results cur plugin [] = (None, cur)"
| "insert_results cur plugin (item # items) =
     (case insert_result_into_db cur plugin item of
        Inl e \<Rightarrow> (Some e, cur)
      | Inr cur' \<Rightarrow> insert_results cur' plugin items)"

fun audit_plugins ::
  "analyzer \<Rightarrow> bool \<Rightarrow> string list \<Rightarrow> db \<Rightarrow> world \<Rightarrow> exn option \<times> db \<times> world" where
  "audit_plugins semgrep verbose [] cur w = (None, cur, w)"
| "audit_plugins semgrep verbose (plugin # plugins) cur w =
     (let w1 = run_semgrep semgrep plugin verbose w in
      case bnd (read_output (files w1) plugin)
             (\<lambda>data. bnd (py_item data ''results'') py_iter) of
        Inl e \<Rightarrow> (Some e, cur, w1)
      | Inr items \<Rightarrow>
          (case insert_results cur (JStr plugin) items of
             (Some e, cur') \<Rightarrow> (Some e, cur', w1)
           | (None, cur') \<Rightarrow> audit_plugins semgrep verbose plugins cur' w1))"

text \<open>\<open>os.listdir\<close> of the plugins directory: its entries, here in the order of the map.\<close>

definition listdir :: "fs \<Rightarrow> string list" where
  "listdir fls = map (\<lambda>e. hd (fst e)) (filter (\<lambda>e. length (fst e) = 1) fls)"

definition run_semgrep_and_store_results ::
  "analyzer \<Rightarrow> bool \<Rightarrow> db \<Rightarrow> world \<Rightarrow> exn option \<times> db \<times> world" where
  "run_semgrep_and_store_results semgrep verbose cur w =
     audit_plugins semgrep verbose (listdir (files w)) cur w"

text \<open>Notions for the claims about the workspace: a member that is in place on disk, a
  member that is not damaged, a network call in the trace, a download that fails before
  anything is extracted.\<close>

fun present :: "fs \<Rightarrow> member \<Rightarrow> bool" where
  "present fls (DirEntry p) = (lookup fls p = Some Dir)"
| "present fls (FileEntry p c) = (lookup fls p = Some (File c))"
| "present fls (CorruptEntry p c) = False"

fun intact :: "member \<Rightarrow> bool" where
  "intact (DirEntry p) = True"
| "intact (FileEntry p c) = True"
| "intact (CorruptEntry p c) = False"

fun is_request :: "event \<Rightarrow> bool" where
  "is_request (Requested l) = True"
| "is_request e = False"

definition download_fails :: "archive_source \<Rightarrow> sqlval \<Rightarrow> bool" where
  "download_fails net link =
     (case net link of
        Unreachable \<Rightarrow> True
      | Served status_code body \<Rightarrow> error_status status_code \<or> body = NotAZip)"

text \<open>
  The admission discipline read off a trace. \<open>batched n draining c evs\<close> follows the
  events with \<open>c\<close> operations unresolved: an admission must leave at most \<open>n\<close> unresolved,
  and once an operation of the batch has been resolved (\<open>draining\<close>) the next admission
  must find none unresolved. Other events do not count.
\<close>

fun batched :: "nat \<Rightarrow> bool \<Rightarrow> nat \<Rightarrow> event list \<Rightarrow> bool" where
  "batched n draining c [] = True"
| "batched n draining c (Admitted s # evs) =
     ((if draining then c = 0 else True) \<and> c + 1 \<le> n \<and> batched n False (c + 1) evs)"
| "batched n draining c (Resolved s # evs) = (0 < c \<and> batched n True (c - 1) evs)"
| "batched n draining c (e # evs) = batched n draining c evs"

text \<open>Events that are neither an admission nor a resolution.\<close>

fun neutral_ev :: "event \<Rightarrow> bool" where
  "neutral_ev (Admitted s) = False"
| "neutral_ev (Resolved s) = False"
| "neutral_ev e = True"

text \<open>Examples for the concrete checks: an archive source with one good and one damaged
  archive, a table of twelve plugins, an analyzer that fails on one plugin.\<close>

definition example_source :: archive_source where
  "example_source link =
     (if link = SText ''https://downloads.wordpress.org/plugin/akismet.zip''
      then Served 200 (Zip [DirEntry [''akismet''],
                            FileEntry [''akismet'', ''akismet.php''] (Other ''<?php''),
                            FileEntry [''akismet'', ''readme.txt''] (Other ''Akismet'')])
      else if link = SText ''https://downloads.wordpress.org/plugin/broken.zip''
      then Served 200 (Zip [FileEntry [''broken'', ''broken.php''] (Other ''<?php''),
                            CorruptEntry [''broken'', ''readme.txt''] None,
                            FileEntry [''broken'', ''uninstall.php''] (Other ''<?php'')])
      else Unreachable)"

definition example_row :: "nat \<Rightarrow> plugin_row" where
  "example_row i =
     \<lparr>slug = SText (''plugin-'' @ show_nat i), version = SText ''1.0'',
      active_installs = SInt 100, downloaded = SInt 1000,
      last_updated = SText ''2026-01-01 00:00:00'', added_date = SNull,
      download_link = SText ''N/A''\<rparr>"

definition twelve_plugins :: db where
  "twelve_plugins = \<lparr>PluginData = Some (map example_row [1..<13]), PluginResults = Some []\<rparr>"

definition example_now :: datetime where
  "example_now = \<lparr>dt_year = 2026, dt_month = 11, dt_day = 4, dt_hour = 12, dt_minute = 0,
                   dt_second = 0, dt_microsecond = 0\<rparr>"

definition example_finding :: "int \<Rightarrow> json" where
  "example_finding line =
     JObj [(''path'', JStr ''good/good.php''), (''check_id'', JStr ''php.lang.security.eval-use''),
           (''start'', JObj [(''line'', JInt line)]), (''end'', JObj [(''line'', JInt line)]),
           (''extra'', JObj [(''lines'', JStr ''eval($code);'')])]"

definition example_semgrep :: analyzer where
  "example_semgrep plugin fls =
     (if plugin = ''good''
      then Exited 0 (Some (Json (JObj [(''results'',
             JArr [example_finding 10, example_finding 20])])))
      else Exited 2 None)"

text \<open>The primary key constraint on a stored table: no two rows share a slug that is not
  NULL. Every table the code builds satisfies it.\<close>

definition primary_key_ok :: "plugin_row list \<Rightarrow> bool" where
  "primary_key_ok rows = distinct (filter (\<lambda>k. k \<noteq> SNull) (map slug rows))"


section \<open>Properties of the upsert\<close>

lemma bnd_Inr_iff: "bnd m f = Inr y \<longleftrightarrow> (\<exists>x. m = Inr x \<and> f x = Inr y)"
  by (cases m) (simp_all add: bnd_def)

lemma bnd_Inr [simp]: "bnd (Inr x) f = f x"
  by (simp add: bnd_def)

lemma bnd_Inl [simp]: "bnd (Inl e) f = Inl e"
  by (simp add: bnd_def)

lemma except_Inr_iff: "except_ProgrammingError r = Inr y \<longleftrightarrow> r = Inr y"
  by (auto simp: except_ProgrammingError_def split: sum.splits exn.splits)

lemma execute_upsert_Inr:
  "execute_upsert cur data = Inr cur1 \<longleftrightarrow>
   (\<exists>rows vs r. PluginData cur = Some rows \<and> bind_params data = Inr vs \<and> values_row vs = Some r
      \<and> cur1 = cur\<lparr>PluginData := Some (upsert_row r rows)\<rparr>)"
  by (auto simp: execute_upsert_def bnd_Inr_iff split: option.splits)

lemma insert_plugin_Inr:
  "insert_plugin_into_db tz cur plugin = Inr cur1 \<longleftrightarrow>
   (\<exists>data rows vs r. plugin_data tz plugin = Inr data \<and> PluginData cur = Some rows
      \<and> bind_params data = Inr vs \<and> values_row vs = Some r
      \<and> cur1 = cur\<lparr>PluginData := Some (upsert_row r rows)\<rparr>)"
  by (auto simp: insert_plugin_into_db_def bnd_Inr_iff except_Inr_iff execute_upsert_Inr)

lemma plugin_data_head:
  assumes "plugin_data tz plugin = Inr data"
  shows "\<exists>sl rest. data = sl # rest \<and> py_item plugin ''slug'' = Inr sl"
  using assms unfolding plugin_data_def bnd_Inr_iff by blast

lemma bind_param_null: "bind_param v = Inr SNull \<Longrightarrow> v = JNull"
  by (cases v) (auto split: if_splits)

lemma text_affinity_null: "text_affinity a = SNull \<longleftrightarrow> a = SNull"
  by (cases a) auto

lemma values_row_slug:
  assumes "bind_params (sl # rest) = Inr vs" "values_row vs = Some r" "sl \<noteq> JNull"
  shows "slug r \<noteq> SNull"
proof -
  from assms(1) obtain a as where a: "bind_param sl = Inr a" "vs = a # as"
    by (auto split: sum.splits)
  from a(1) assms(3) have "a \<noteq> SNull" using bind_param_null by blast
  moreover from assms(2) a(2) have "slug r = text_affinity a"
    by (auto simp: values_row_def split: list.splits)
  ultimately show ?thesis by (simp add: text_affinity_null)
qed

lemma do_update_same: "slug x = slug r \<Longrightarrow> do_update r x = r"
  by (simp add: do_update_def)

lemma upsert_row_present:
  "slug r \<in> slug ` set rows \<Longrightarrow> slug r \<noteq> SNull \<Longrightarrow>
   upsert_row r rows = map (\<lambda>x. if slug x = slug r then r else x) rows"
  by (auto simp: upsert_row_def do_update_same)

lemma upsert_row_absent:
  "slug r \<notin> slug ` set rows \<Longrightarrow> upsert_row r rows = rows @ [r]"
  by (simp add: upsert_row_def)

lemma slug_in_upsert_row: "slug r \<in> slug ` set (upsert_row r rows)"
proof (cases "slug r \<noteq> SNull \<and> slug r \<in> slug ` set rows")
  case True
  then obtain x where "x \<in> set rows" "slug x = slug r" by auto
  then have "do_update r x \<in> set (upsert_row r rows)"
    using True by (force simp: upsert_row_def)
  moreover have "slug (do_update r x) = slug r"
    using \<open>slug x = slug r\<close> by (simp add: do_update_def)
  ultimately show ?thesis by (metis image_eqI)
next
  case False
  then have "upsert_row r rows = rows @ [r]" by (auto simp: upsert_row_def)
  then show ?thesis by simp
qed

lemma upsert_row_idem:
  assumes "slug r \<noteq> SNull"
  shows "upsert_row r (upsert_row r rows) = upsert_row r rows"
proof (cases "slug r \<in> slug ` set rows")
  case True
  have "upsert_row r (upsert_row r rows) = map (\<lambda>x. if slug x = slug r then r else x) (upsert_row r rows)"
    using assms slug_in_upsert_row by (rule_tac upsert_row_present) 
  also have "\<dots> = upsert_row r rows"
    using True assms by (simp add: upsert_row_present o_def cong: map_cong) 
  finally show ?thesis .
next
  case False
  then have "upsert_row r rows = rows @ [r]" by (rule upsert_row_absent)
  moreover have "upsert_row r (rows @ [r]) = map (\<lambda>x. if slug x = slug r then r else x) (rows @ [r])"
    using assms by (intro upsert_row_present) auto
  moreover have "map (\<lambda>x. if slug x = slug r then r else x) rows = rows"
    using False by (induction rows) auto
  ultimately show ?thesis by simp
qed

lemma filter_key_distinct:
  "primary_key_ok rows \<Longrightarrow> k \<noteq> SNull \<Longrightarrow> k \<in> slug ` set rows \<Longrightarrow>
   filter (\<lambda>x. slug x = k) (map (\<lambda>x. if slug x = k then r else x) rows) = (if slug r = k then [r] else [])"
proof (induction rows)
  case Nil then show ?case by simp
next
  case (Cons a rows)
  show ?case
  proof (cases "slug a = k")
    case True
    then have nk: "k \<notin> slug ` set rows" using Cons.prems by (auto simp: primary_key_ok_def)
    then have "filter (\<lambda>x. slug x = k) (map (\<lambda>x. if slug x = k then r else x) rows) = []"
      by (induction rows) auto
    then show ?thesis using True by simp
  next
    case False
    then have "k \<in> slug ` set rows" using Cons.prems by auto
    moreover have "primary_key_ok rows" using Cons.prems by (auto simp: primary_key_ok_def split: if_splits)
    ultimately show ?thesis using Cons False by simp
  qed
qed

lemma upsert_row_one:
  assumes "primary_key_ok rows" "slug r \<noteq> SNull"
  shows "filter (\<lambda>x. slug x = slug r) (upsert_row r rows) = [r]"
proof (cases "slug r \<in> slug ` set rows")
  case True
  then show ?thesis using assms by (simp add: upsert_row_present filter_key_distinct)
next
  case False
  then have "filter (\<lambda>x. slug x = slug r) rows = []" by (induction rows) auto
  then show ?thesis using False by (simp add: upsert_row_absent)
qed

lemma upsert_row_others:
  "k \<noteq> slug r \<Longrightarrow> filter (\<lambda>x. slug x = k) (upsert_row r rows) = filter (\<lambda>x. slug x = k) rows"
proof -
  assume k: "k \<noteq> slug r"
  have "filter (\<lambda>x. slug x = k) (map (\<lambda>x. if slug x = slug r then do_update r x else x) rows)
        = filter (\<lambda>x. slug x = k) rows"
    using k by (induction rows) (auto simp: do_update_def)
  then show ?thesis using k by (auto simp: upsert_row_def)
qed

lemma primary_key_upsert:
  assumes "primary_key_ok rows"
  shows "primary_key_ok (upsert_row r rows)"
proof (cases "slug r \<noteq> SNull \<and> slug r \<in> slug ` set rows")
  case True
  have "map slug (map (\<lambda>x. if slug x = slug r then r else x) rows) = map slug rows"
    by (induction rows) auto
  then show ?thesis using True assms by (simp add: upsert_row_present primary_key_ok_def del: map_map)
next
  case False
  then have "upsert_row r rows = rows @ [r]" by (auto simp: upsert_row_def)
  then show ?thesis using False assms by (auto simp: primary_key_ok_def)
qed

text \<open>
  C3: writing the same plugin twice. When the first \<open>insert_plugin_into_db\<close> succeeds on a
  table that satisfies its primary key, and the slug is not \<open>None\<close>, the second call with
  the same plugin succeeds and leaves the store as the first left it; the table then holds
  exactly one row for that slug, and this row is the row of the \<open>VALUES\<close> clause, computed
  from the plugin alone: every non-key column comes from the write, none from the old row.
\<close>

theorem upsert_twice_one_row:
  assumes tbl: "PluginData cur = Some rows"
    and pk: "primary_key_ok rows"
    and ins: "insert_plugin_into_db tz cur plugin = Inr cur1"
    and key: "py_item plugin ''slug'' \<noteq> Inr JNull"
  shows "insert_plugin_into_db tz cur1 plugin = Inr cur1 \<and>
         (\<exists>data vs r rows1. plugin_data tz plugin = Inr data \<and> bind_params data = Inr vs
            \<and> values_row vs = Some r \<and> PluginData cur1 = Some rows1
            \<and> filter (\<lambda>x. slug x = slug r) rows1 = [r])"
proof -
  from ins tbl obtain data vs r where d: "plugin_data tz plugin = Inr data"
    and b: "bind_params data = Inr vs" and v: "values_row vs = Some r"
    and c: "cur1 = cur\<lparr>PluginData := Some (upsert_row r rows)\<rparr>"
    unfolding insert_plugin_Inr by auto
  from plugin_data_head [OF d] obtain sl rest where h: "data = sl # rest"
    "py_item plugin ''slug'' = Inr sl" by blast
  with key have "sl \<noteq> JNull" by auto
  with b v h have nn: "slug r \<noteq> SNull" using values_row_slug by blast
  have again: "insert_plugin_into_db tz cur1 plugin = Inr cur1"
    unfolding insert_plugin_Inr [of tz cur1]
    using d b v c upsert_row_idem [OF nn, of rows] by auto
  have one: "filter (\<lambda>x. slug x = slug r) (upsert_row r rows) = [r]"
    using pk nn by (rule upsert_row_one)
  show ?thesis using again d b v c one by auto
qed

theorem upsert_twice_one_row_witness:
  "primary_key_ok [\<lparr>slug = SText ''akismet'', version = SText ''5.2'',
       active_installs = SInt 5000000, downloaded = SInt 7,
       last_updated = SText ''2023-01-01 10:00:00'', added_date = SText ''2005-10-20'',
       download_link = SText ''https://downloads.wordpress.org/plugin/akismet.5.2.zip''\<rparr>]
   \<and> insert_plugin_into_db []
     \<lparr>PluginData = Some [\<lparr>slug = SText ''akismet'', version = SText ''5.3'',
        active_installs = SInt 0, downloaded = SInt 0, last_updated = SNull,
        added_date = SNull, download_link = SText ''N/A''\<rparr>], PluginResults = None\<rparr>
     (JObj [(''slug'', JStr ''akismet''), (''version'', JStr ''5.3'')])
   = Inr \<lparr>PluginData = Some [\<lparr>slug = SText ''akismet'', version = SText ''5.3'',
        active_installs = SInt 0, downloaded = SInt 0, last_updated = SNull,
        added_date = SNull, download_link = SText ''N/A''\<rparr>], PluginResults = None\<rparr>"
proof -
  have h1: "insert_plugin_into_db []
      \<lparr>PluginData = Some [\<lparr>slug = SText ''akismet'', version = SText ''5.2'',
         active_installs = SInt 5000000, downloaded = SInt 7,
         last_updated = SText ''2023-01-01 10:00:00'', added_date = SText ''2005-10-20'',
         download_link = SText ''https://downloads.wordpress.org/plugin/akismet.5.2.zip''\<rparr>],
       PluginResults = None\<rparr>
      (JObj [(''slug'', JStr ''akismet''), (''version'', JStr ''5.3'')])
    = Inr \<lparr>PluginData = Some [\<lparr>slug = SText ''akismet'', version = SText ''5.3'',
         active_installs = SInt 0, downloaded = SInt 0, last_updated = SNull,
         added_date = SNull, download_link = SText ''N/A''\<rparr>], PluginResults = None\<rparr>"
    by code_simp
  have h2: "primary_key_ok [\<lparr>slug = SText ''akismet'', version = SText ''5.2'',
       active_installs = SInt 5000000, downloaded = SInt 7,
       last_updated = SText ''2023-01-01 10:00:00'', added_date = SText ''2005-10-20'',
       download_link = SText ''https://downloads.wordpress.org/plugin/akismet.5.2.zip''\<rparr>]"
    by (simp add: primary_key_ok_def)
  have h3: "py_item (JObj [(''slug'', JStr ''akismet''), (''version'', JStr ''5.3'')]) ''slug''
      \<noteq> Inr JNull"
    by simp
  show ?thesis using upsert_twice_one_row [OF _ h2 h1 h3] h2 by simp
qed

section \<open>Which fields \<open>insert_plugin_into_db\<close> needs\<close>

lemma map_of_without:
  "map_of (filter (\<lambda>p. fst p \<noteq> k) kvs) k' = (if k' = k then None else map_of kvs k')"
  by (induction kvs) auto

lemma bind_params_7:
  "bind_params [a, b, c, d, e, f, g] = Inr vs \<longleftrightarrow>
   (\<exists>a' b' c' d' e' f' g'. bind_param a = Inr a' \<and> bind_param b = Inr b' \<and> bind_param c = Inr c'
      \<and> bind_param d = Inr d' \<and> bind_param e = Inr e' \<and> bind_param f = Inr f' \<and> bind_param g = Inr g'
      \<and> vs = [a', b', c', d', e', f', g'])"
  by (auto split: sum.splits)

lemma plugin_data_Inr:
  "plugin_data tz (JObj kvs) = Inr data \<longleftrightarrow>
   (\<exists>lu ad sl ai dl.
      (let v = (case map_of kvs ''last_updated'' of None \<Rightarrow> JNull | Some v \<Rightarrow> v)
       in if truthy v then convert_last_updated tz v else Inr v) = Inr lu
    \<and> (let v = (case map_of kvs ''added'' of None \<Rightarrow> JNull | Some v \<Rightarrow> v)
       in if truthy v then convert_added v else Inr v) = Inr ad
    \<and> map_of kvs ''slug'' = Some sl
    \<and> py_int (case map_of kvs ''active_installs'' of None \<Rightarrow> JInt 0 | Some v \<Rightarrow> v) = Inr ai
    \<and> py_int (case map_of kvs ''downloaded'' of None \<Rightarrow> JInt 0 | Some v \<Rightarrow> v) = Inr dl
    \<and> data = [sl, case map_of kvs ''version'' of None \<Rightarrow> JStr ''N/A'' | Some v \<Rightarrow> v,
              JInt ai, JInt dl, lu, ad,
              case map_of kvs ''download_link'' of None \<Rightarrow> JStr ''N/A'' | Some v \<Rightarrow> v])"
  unfolding plugin_data_def
  by (auto simp: bnd_def Let_def split: sum.splits option.splits)

lemma values_row_7: "values_row vs = Some r \<Longrightarrow> length vs = 7"
  by (auto simp: values_row_def split: list.splits)

lemma values_row_7': "length vs = 7 \<Longrightarrow> \<exists>r. values_row vs = Some r"
  by (auto simp: values_row_def  split: list.splits)

lemma bind_params_length: "bind_params xs = Inr vs \<Longrightarrow> length vs = length xs"
  by (induction xs arbitrary: vs) (auto split: sum.splits)

lemma bind_param_default [simp]:
  "bind_param (JInt 0) = Inr (SInt 0)" "bind_param (JStr s) = Inr (SText s)" "bind_param JNull = Inr SNull"
  by simp_all

lemma remove_field_data:
  assumes k: "k \<noteq> ''slug''"
    and d: "plugin_data tz (JObj kvs) = Inr data"
    and b: "bind_params data = Inr vs"
  shows "\<exists>data' vs'. plugin_data tz (JObj (filter (\<lambda>p. fst p \<noteq> k) kvs)) = Inr data'
           \<and> bind_params data' = Inr vs'"
proof -
  from d obtain lu ad sl ai dl where
    lu: "(let v = (case map_of kvs ''last_updated'' of None \<Rightarrow> JNull | Some v \<Rightarrow> v)
       in if truthy v then convert_last_updated tz v else Inr v) = Inr lu"
    and ad: "(let v = (case map_of kvs ''added'' of None \<Rightarrow> JNull | Some v \<Rightarrow> v)
       in if truthy v then convert_added v else Inr v) = Inr ad"
    and sl: "map_of kvs ''slug'' = Some sl"
    and ai: "py_int (case map_of kvs ''active_installs'' of None \<Rightarrow> JInt 0 | Some v \<Rightarrow> v) = Inr ai"
    and dl: "py_int (case map_of kvs ''downloaded'' of None \<Rightarrow> JInt 0 | Some v \<Rightarrow> v) = Inr dl"
    and data: "data = [sl, case map_of kvs ''version'' of None \<Rightarrow> JStr ''N/A'' | Some v \<Rightarrow> v,
              JInt ai, JInt dl, lu, ad,
              case map_of kvs ''download_link'' of None \<Rightarrow> JStr ''N/A'' | Some v \<Rightarrow> v]"
    unfolding plugin_data_Inr by blast
  from b [unfolded data bind_params_7] obtain a' b' c' d' e' f' g' where
    bs: "bind_param sl = Inr a'"
      "bind_param (case map_of kvs ''version'' of None \<Rightarrow> JStr ''N/A'' | Some v \<Rightarrow> v) = Inr b'"
      "bind_param (JInt ai) = Inr c'" "bind_param (JInt dl) = Inr d'"
      "bind_param lu = Inr e'" "bind_param ad = Inr f'"
      "bind_param (case map_of kvs ''download_link'' of None \<Rightarrow> JStr ''N/A'' | Some v \<Rightarrow> v) = Inr g'"
    by blast
  let ?kvs = "filter (\<lambda>p. fst p \<noteq> k) kvs"
  have 1: "\<exists>lu' e. (let v = (case map_of ?kvs ''last_updated'' of None \<Rightarrow> JNull | Some v \<Rightarrow> v)
       in if truthy v then convert_last_updated tz v else Inr v) = Inr lu' \<and> bind_param lu' = Inr e"
    using lu bs(5) by (auto simp: map_of_without)
  have 2: "\<exists>ad' e. (let v = (case map_of ?kvs ''added'' of None \<Rightarrow> JNull | Some v \<Rightarrow> v)
       in if truthy v then convert_added v else Inr v) = Inr ad' \<and> bind_param ad' = Inr e"
    using ad bs(6) by (auto simp: map_of_without)
  have 3: "map_of ?kvs ''slug'' = Some sl"
    using sl k by (simp add: map_of_without)
  have 4: "\<exists>ai' e. py_int (case map_of ?kvs ''active_installs'' of None \<Rightarrow> JInt 0 | Some v \<Rightarrow> v) = Inr ai'
      \<and> bind_param (JInt ai') = Inr e"
    using ai bs(3) by (auto simp: map_of_without)
  have 5: "\<exists>dl' e. py_int (case map_of ?kvs ''downloaded'' of None \<Rightarrow> JInt 0 | Some v \<Rightarrow> v) = Inr dl'
      \<and> bind_param (JInt dl') = Inr e"
    using dl bs(4) by (auto simp: map_of_without)
  have 6: "\<exists>e. bind_param (case map_of ?kvs ''version'' of None \<Rightarrow> JStr ''N/A'' | Some v \<Rightarrow> v) = Inr e"
    using bs(2) by (auto simp: map_of_without)
  have 7: "\<exists>e. bind_param (case map_of ?kvs ''download_link'' of None \<Rightarrow> JStr ''N/A'' | Some v \<Rightarrow> v) = Inr e"
    using bs(7) by (auto simp: map_of_without)
  from 1 obtain lu' e1 where l1: "(let v = (case map_of ?kvs ''last_updated'' of None \<Rightarrow> JNull | Some v \<Rightarrow> v)
       in if truthy v then convert_last_updated tz v else Inr v) = Inr lu'" and b1: "bind_param lu' = Inr e1"
    by blast
  from 2 obtain ad' e2 where l2: "(let v = (case map_of ?kvs ''added'' of None \<Rightarrow> JNull | Some v \<Rightarrow> v)
       in if truthy v then convert_added v else Inr v) = Inr ad'" and b2: "bind_param ad' = Inr e2"
    by blast
  from 4 obtain ai' e4 where l4: "py_int (case map_of ?kvs ''active_installs'' of None \<Rightarrow> JInt 0 | Some v \<Rightarrow> v) = Inr ai'"
    and b4: "bind_param (JInt ai') = Inr e4" by blast
  from 5 obtain dl' e5 where l5: "py_int (case map_of ?kvs ''downloaded'' of None \<Rightarrow> JInt 0 | Some v \<Rightarrow> v) = Inr dl'"
    and b5: "bind_param (JInt dl') = Inr e5" by blast
  from 6 obtain e6 where b6: "bind_param (case map_of ?kvs ''version'' of None \<Rightarrow> JStr ''N/A'' | Some v \<Rightarrow> v) = Inr e6"
    by blast
  from 7 obtain e7 where b7: "bind_param (case map_of ?kvs ''download_link'' of None \<Rightarrow> JStr ''N/A'' | Some v \<Rightarrow> v) = Inr e7"
    by blast
  have pd: "plugin_data tz (JObj ?kvs) =
      Inr [sl, case map_of ?kvs ''version'' of None \<Rightarrow> JStr ''N/A'' | Some v \<Rightarrow> v,
           JInt ai', JInt dl', lu', ad',
           case map_of ?kvs ''download_link'' of None \<Rightarrow> JStr ''N/A'' | Some v \<Rightarrow> v]"
    unfolding plugin_data_Inr using l1 l2 3 l4 l5 by blast
  have "bind_params [sl, case map_of ?kvs ''version'' of None \<Rightarrow> JStr ''N/A'' | Some v \<Rightarrow> v,
           JInt ai', JInt dl', lu', ad',
           case map_of ?kvs ''download_link'' of None \<Rightarrow> JStr ''N/A'' | Some v \<Rightarrow> v]
        = Inr [a', e6, e4, e5, e1, e2, e7]"
    unfolding bind_params_7 using bs(1) b6 b4 b5 b1 b2 b7 by blast
  with pd show ?thesis by blast
qed

lemma plugin_data_no_slug:
  assumes "map_of kvs ''slug'' = None"
  shows "\<exists>e. plugin_data tz (JObj kvs) = Inl e \<and>
     (e = KeyError ''slug''
      \<or> (\<exists>v. map_of kvs ''last_updated'' = Some v \<and> truthy v \<and> convert_last_updated tz v = Inl e)
      \<or> (\<exists>v. map_of kvs ''added'' = Some v \<and> truthy v \<and> convert_added v = Inl e))"
proof -
  let ?lu0 = "case map_of kvs ''last_updated'' of None \<Rightarrow> JNull | Some v \<Rightarrow> v"
  let ?ad0 = "case map_of kvs ''added'' of None \<Rightarrow> JNull | Some v \<Rightarrow> v"
  let ?A = "if truthy ?lu0 then convert_last_updated tz ?lu0 else Inr ?lu0"
  let ?B = "if truthy ?ad0 then convert_added ?ad0 else Inr ?ad0"
  have eq: "plugin_data tz (JObj kvs) = bnd ?A (\<lambda>lu. bnd ?B (\<lambda>ad. Inl (KeyError ''slug'')))"
    using assms by (simp add: plugin_data_def)
  show ?thesis
  proof (cases ?A)
    case (Inl e)
    then have "truthy ?lu0" "convert_last_updated tz ?lu0 = Inl e" by (auto split: if_splits)
    moreover from this(1) obtain v where "map_of kvs ''last_updated'' = Some v"
      by (cases "map_of kvs ''last_updated''") auto
    ultimately show ?thesis using eq Inl by auto
  next
    case A: (Inr lu)
    show ?thesis
    proof (cases ?B)
      case (Inl e)
      then have "truthy ?ad0" "convert_added ?ad0 = Inl e" by (auto split: if_splits)
      moreover from this(1) obtain v where "map_of kvs ''added'' = Some v"
        by (cases "map_of kvs ''added''") auto
      ultimately show ?thesis using eq Inl A by auto
    next
      case (Inr ad)
      then show ?thesis using eq A by simp
    qed
  qed
qed


text \<open>
  C10, as the code has it. (1) Without a \<open>slug\<close> key the call raises while the tuple \<open>data\<close>
  is built, so before \<open>cursor.execute\<close>: the store is not touched. The exception is
  \<open>KeyError\<close> for \<open>slug\<close>, unless a date field that is present had already failed to
  parse, since both dates are converted before \<open>plugin["slug"]\<close> is read. (2) Taking any
  other key away from a plugin that is accepted leaves a plugin that is accepted. (3) A
  plugin with nothing but a slug is stored, every other column at its default.
\<close>

theorem slug_is_the_only_required_field:
  "(map_of kvs ''slug'' = None \<longrightarrow>
      (\<exists>e. plugin_data tz (JObj kvs) = Inl e \<and> insert_plugin_into_db tz cur (JObj kvs) = Inl e
         \<and> (e = KeyError ''slug''
            \<or> (\<exists>v. map_of kvs ''last_updated'' = Some v \<and> truthy v
                  \<and> convert_last_updated tz v = Inl e)
            \<or> (\<exists>v. map_of kvs ''added'' = Some v \<and> truthy v \<and> convert_added v = Inl e))))
   \<and> (k \<noteq> ''slug'' \<and> insert_plugin_into_db tz cur (JObj kvs) = Inr cur1 \<longrightarrow>
        (\<exists>cur2. insert_plugin_into_db tz cur (JObj (filter (\<lambda>p. fst p \<noteq> k) kvs)) = Inr cur2))
   \<and> (PluginData cur = Some rows \<and> bind_param sl = Inr a \<longrightarrow>
        insert_plugin_into_db tz cur (JObj [(''slug'', sl)]) =
          Inr (cur\<lparr>PluginData := Some (upsert_row
            \<lparr>slug = text_affinity a, version = SText ''N/A'', active_installs = SInt 0,
             downloaded = SInt 0, last_updated = SNull, added_date = SNull,
             download_link = SText ''N/A''\<rparr> rows)\<rparr>))"
proof (intro conjI impI)
  assume "map_of kvs ''slug'' = None"
  from plugin_data_no_slug [OF this, of tz]
  show "\<exists>e. plugin_data tz (JObj kvs) = Inl e \<and> insert_plugin_into_db tz cur (JObj kvs) = Inl e
         \<and> (e = KeyError ''slug''
            \<or> (\<exists>v. map_of kvs ''last_updated'' = Some v \<and> truthy v
                  \<and> convert_last_updated tz v = Inl e)
            \<or> (\<exists>v. map_of kvs ''added'' = Some v \<and> truthy v \<and> convert_added v = Inl e))"
    by (auto simp: insert_plugin_into_db_def)
next
  assume a: "k \<noteq> ''slug'' \<and> insert_plugin_into_db tz cur (JObj kvs) = Inr cur1"
  then obtain data rows vs r where d: "plugin_data tz (JObj kvs) = Inr data"
    and t: "PluginData cur = Some rows" and b: "bind_params data = Inr vs"
    unfolding insert_plugin_Inr by blast
  from remove_field_data [OF _ d b, of k] a obtain data' vs' where
    d': "plugin_data tz (JObj (filter (\<lambda>p. fst p \<noteq> k) kvs)) = Inr data'"
    and b': "bind_params data' = Inr vs'" by blast
  from d' have "length data' = 7" unfolding plugin_data_Inr by auto
  with b' have "length vs' = 7" using bind_params_length by fastforce
  then obtain r' where "values_row vs' = Some r'" using values_row_7' by blast
  with d' b' t show "\<exists>cur2. insert_plugin_into_db tz cur (JObj (filter (\<lambda>p. fst p \<noteq> k) kvs)) = Inr cur2"
    unfolding insert_plugin_Inr by blast
next
  assume a: "PluginData cur = Some rows \<and> bind_param sl = Inr a"
  have "plugin_data tz (JObj [(''slug'', sl)]) = Inr [sl, JStr ''N/A'', JInt 0, JInt 0, JNull, JNull, JStr ''N/A'']"
    by (simp add: plugin_data_def)
  then show "insert_plugin_into_db tz cur (JObj [(''slug'', sl)]) =
          Inr (cur\<lparr>PluginData := Some (upsert_row
            \<lparr>slug = text_affinity a, version = SText ''N/A'', active_installs = SInt 0,
             downloaded = SInt 0, last_updated = SNull, added_date = SNull,
             download_link = SText ''N/A''\<rparr> rows)\<rparr>)"
    using a by (simp add: insert_plugin_into_db_def execute_upsert_def values_row_def except_ProgrammingError_def)
qed


theorem slug_is_the_only_required_field_witness:
  "insert_plugin_into_db [] \<lparr>PluginData = Some [], PluginResults = Some []\<rparr>
      (JObj [(''version'', JStr ''5.3'')]) = Inl (KeyError ''slug'')
   \<and> (\<exists>cur2. insert_plugin_into_db [] \<lparr>PluginData = Some [], PluginResults = Some []\<rparr>
         (JObj (filter (\<lambda>p. fst p \<noteq> ''version'')
            [(''slug'', JStr ''akismet''), (''version'', JStr ''5.3'')])) = Inr cur2)
   \<and> insert_plugin_into_db [] \<lparr>PluginData = Some [], PluginResults = Some []\<rparr>
        (JObj [(''slug'', JStr ''akismet'')])
      = Inr \<lparr>PluginData = Some [\<lparr>slug = SText ''akismet'', version = SText ''N/A'',
          active_installs = SInt 0, downloaded = SInt 0, last_updated = SNull,
          added_date = SNull, download_link = SText ''N/A''\<rparr>], PluginResults = Some []\<rparr>"
proof -
  let ?cur = "\<lparr>PluginData = Some [], PluginResults = Some []\<rparr>"
  have n: "map_of [(''version'', JStr ''5.3'')] ''slug'' = None"
    "map_of [(''version'', JStr ''5.3'')] ''last_updated'' = None"
    "map_of [(''version'', JStr ''5.3'')] ''added'' = None"
    by simp_all
  from slug_is_the_only_required_field [of "[(''version'', JStr ''5.3'')]" "[]" ?cur] n
  have 1: "insert_plugin_into_db [] ?cur (JObj [(''version'', JStr ''5.3'')]) = Inl (KeyError ''slug'')"
    by auto
  have s: "insert_plugin_into_db [] ?cur (JObj [(''slug'', JStr ''akismet''), (''version'', JStr ''5.3'')])
      = Inr \<lparr>PluginData = Some [\<lparr>slug = SText ''akismet'', version = SText ''5.3'',
          active_installs = SInt 0, downloaded = SInt 0, last_updated = SNull,
          added_date = SNull, download_link = SText ''N/A''\<rparr>], PluginResults = Some []\<rparr>"
    by code_simp
  from slug_is_the_only_required_field
    [of "[(''slug'', JStr ''akismet''), (''version'', JStr ''5.3'')]" "[]" ?cur "''version''"] s
  have 2: "\<exists>cur2. insert_plugin_into_db [] ?cur
         (JObj (filter (\<lambda>p. fst p \<noteq> ''version'')
            [(''slug'', JStr ''akismet''), (''version'', JStr ''5.3'')])) = Inr cur2"
    by simp
  have b: "PluginData ?cur = Some [] \<and> bind_param (JStr ''akismet'') = Inr (SText ''akismet'')"
    by simp
  from slug_is_the_only_required_field [of _ "[]" ?cur _ _ "[]" "JStr ''akismet''" "SText ''akismet''"] b
  have 3: "insert_plugin_into_db [] ?cur (JObj [(''slug'', JStr ''akismet'')])
      = Inr \<lparr>PluginData = Some [\<lparr>slug = SText ''akismet'', version = SText ''N/A'',
          active_installs = SInt 0, downloaded = SInt 0, last_updated = SNull,
          added_date = SNull, download_link = SText ''N/A''\<rparr>], PluginResults = Some []\<rparr>"
    by (simp add: upsert_row_def)
  from 1 2 3 show ?thesis by blast
qed

text \<open>The claim as stated names KeyError for every plugin without a slug; a plugin without
  a slug whose \<open>last_updated\<close> does not parse raises ValueError.\<close>

theorem missing_slug_counterexample:
  "insert_plugin_into_db [] \<lparr>PluginData = Some [], PluginResults = Some []\<rparr>
     (JObj [(''last_updated'', JStr ''yesterday'')]) = Inl ValueError"
  by code_simp

section \<open>Normalisation of the timestamp and the defaults of absent fields\<close>

lemma of_char_digit_chr: "of_char (digit_chr n) = (48 + n mod 10 :: nat)"
  by (simp add: digit_chr_def)

lemma is_digit_digit_chr: "is_digit (digit_chr n)"
  by (simp add: is_digit_def less_eq_char_def of_char_digit_chr)

lemma digit_val_digit_chr: "digit_val (digit_chr n) = n mod 10"
  by (simp add: digit_val_def of_char_digit_chr)

lemma all_digits_show_nat: "list_all is_digit (show_nat n)"
  by (induction n rule: show_nat.induct) (subst show_nat.simps, simp add: is_digit_digit_chr)

lemma digits_val_snoc: "digits_val acc (xs @ [c]) = 10 * digits_val acc xs + digit_val c"
  by (induction xs arbitrary: acc) auto

lemma digits_val_show_nat: "digits_val 0 (show_nat n) = n"
proof (induction n rule: show_nat.induct)
  case (1 n)
  show ?case
  proof (cases "n < 10")
    case True
    then show ?thesis by (subst show_nat.simps) (simp add: digit_val_digit_chr)
  next
    case False
    then have "digits_val 0 (show_nat n) = 10 * digits_val 0 (show_nat (n div 10)) + n mod 10"
      by (subst show_nat.simps) (simp add: digits_val_snoc digit_val_digit_chr)
    with 1 False show ?thesis by simp
  qed
qed

lemma digits_val_zeros: "digits_val 0 (replicate k (CHR ''0'') @ xs) = digits_val 0 xs"
  by (induction k) (auto simp: digit_val_def)

lemma digits_val_pad: "digits_val 0 (pad w n) = n"
  by (simp add: pad_def digits_val_zeros digits_val_show_nat)

lemma all_digits_pad: "list_all is_digit (pad w n)"
proof -
  have "is_digit (CHR ''0'')" by (simp add: is_digit_def)
  then show ?thesis using all_digits_show_nat [of n] by (auto simp: pad_def list_all_iff)
qed

lemma length_show_nat: "n < 10 ^ k \<Longrightarrow> 0 < k \<Longrightarrow> length (show_nat n) \<le> k"
proof (induction n arbitrary: k rule: show_nat.induct)
  case (1 n)
  show ?case
  proof (cases "n < 10")
    case True
    then show ?thesis using 1(3) by (subst show_nat.simps) simp
  next
    case False
    then obtain j where j: "k = Suc j" using 1(3) by (cases k) auto
    with 1(2) False have "0 < j" by (cases j) auto
    moreover from 1(2) j have "n div 10 < 10 ^ j" by (simp add: less_mult_imp_div_less mult.commute)
    ultimately have "length (show_nat (n div 10)) \<le> j" using 1(1) False by blast
    then show ?thesis using False j by (subst show_nat.simps) simp
  qed
qed

lemma length_pad: "n < 10 ^ w \<Longrightarrow> 0 < w \<Longrightarrow> length (pad w n) = w"
  using length_show_nat [of n w] by (simp add: pad_def)

lemma length_pad4: "y < 10000 \<Longrightarrow> length (pad 4 y) = 4"
  using length_pad [of y 4] by simp

lemma length_pad2: "n < 100 \<Longrightarrow> length (pad 2 n) = 2"
  using length_pad [of n 2] by simp

lemma re_Y_pad4: "y < 10000 \<Longrightarrow> re_Y (pad 4 y @ rest) = Some (y, rest)"
  by (simp add: re_Y_def length_pad4 all_digits_pad digits_val_pad)

lemma lit_Cons: "lit c (c # s) = Some s"
  by (simp add: lit_def)

lemma re_m_append: "length s = 2 \<Longrightarrow> re_m (s @ rest) = map_option (\<lambda>(v, r). (v, r @ rest)) (re_m s)"
  by (cases s; cases "tl s") auto

lemma re_d_append: "length s = 2 \<Longrightarrow> re_d (s @ rest) = map_option (\<lambda>(v, r). (v, r @ rest)) (re_d s)"
  by (cases s; cases "tl s") auto

lemma re_M_append: "length s = 2 \<Longrightarrow> re_M (s @ rest) = map_option (\<lambda>(v, r). (v, r @ rest)) (re_M s)"
  by (cases s; cases "tl s") auto

lemma months_closed: "\<forall>m\<in>set [1..<13]. re_m (pad 2 m) = Some (m, [])"
  by code_simp

lemma days_closed: "\<forall>d\<in>set [1..<32]. re_d (pad 2 d) = Some (d, [])"
  by code_simp

lemma minutes_closed: "\<forall>m\<in>set [0..<60]. re_M (pad 2 m) = Some (m, [])"
  by code_simp

lemma hours_closed: "\<forall>h\<in>set [1..<13]. re_m (show_nat h @ '':'') = Some (h, '':'')
    \<and> length (show_nat h @ '':'') \<ge> 2 \<and> \<not> is_space (hd (show_nat h)) \<and> \<not> is_space (hd (pad 2 h)) "
  by code_simp

lemma zone_names_sorted: "sorted_wrt (\<lambda>a b. length b \<le> length a) (zone_names tz)"
proof -
  have "sorted (map length (sort_key length (remdups (''utc'' # ''gmt'' # map lower tz))))"
    by (rule sorted_sort_key)
  then have "sorted_wrt (\<lambda>a b. length a \<le> length b) (sort_key length (remdups (''utc'' # ''gmt'' # map lower tz)))"
    by (simp add: sorted_map)
  then show ?thesis unfolding zone_names_def by (simp add: sorted_wrt_rev)
qed

lemma length_lower [simp]: "length (lower s) = length s"
  by (simp add: lower_def)

lemma re_Z_whole:
  assumes "lower z \<in> set (zone_names tz)"
  shows "re_Z tz z = Some (lower z, [])"
proof -
  let ?P = "\<lambda>n. lower (take (length n) z) = n"
  let ?F = "filter ?P (zone_names tz)"
  have "?P (lower z)" by simp
  with assms have mem: "lower z \<in> set ?F" by simp
  then obtain h t where ht: "?F = h # t" by (cases ?F) auto
  have "sorted_wrt (\<lambda>a b. length b \<le> length a) ?F"
    using zone_names_sorted by (rule sorted_wrt_filter)
  with ht mem have ge: "length z \<le> length h" by auto
  have "h \<in> set ?F" using ht by simp
  then have ph: "?P h" by simp
  then have "length h = length (take (length h) z)" by (metis length_lower)
  then have "length h \<le> length z" by simp
  with ge have "length h = length z" by simp
  with ph have "h = lower z" by simp
  then show ?thesis using ht by (simp add: re_Z_def)
qed

lemma re_ws_one: "s \<noteq> [] \<Longrightarrow> \<not> is_space (hd s) \<Longrightarrow> re_ws (CHR '' '' # s) = Some s"
  by (cases s) (simp_all add: re_ws_def is_space_def)

lemma re_p_am: "lower ap = ''am'' \<Longrightarrow> re_p (ap @ rest) = Some (False, rest)"
proof -
  assume a: "lower ap = ''am''"
  then have "length ap = 2" by (metis length_lower length_Cons list.size(3) numeral_2_eq_2)
  with a show ?thesis by (simp add: re_p_def)
qed

lemma re_p_pm: "lower ap = ''pm'' \<Longrightarrow> re_p (ap @ rest) = Some (True, rest)"
proof -
  assume a: "lower ap = ''pm''"
  then have "length ap = 2" by (metis length_lower length_Cons list.size(3) numeral_2_eq_2)
  with a show ?thesis by (simp add: re_p_def)
qed

lemma re_p_either:
  "lower ap = ''am'' \<or> lower ap = ''pm'' \<Longrightarrow> re_p (ap @ rest) = Some (lower ap = ''pm'', rest)"
  using re_p_am re_p_pm by auto

lemma re_m_pad2: "1 \<le> m \<Longrightarrow> m \<le> 12 \<Longrightarrow> re_m (pad 2 m @ rest) = Some (m, rest)"
proof -
  assume "1 \<le> m" "m \<le> 12"
  then have "m \<in> set [1..<13]" by simp
  with months_closed have "re_m (pad 2 m) = Some (m, [])" by blast
  moreover have "length (pad 2 m) = 2" using \<open>m \<le> 12\<close> by (simp add: length_pad2)
  ultimately show ?thesis by (simp add: re_m_append)
qed

lemma re_d_pad2: "1 \<le> d \<Longrightarrow> d \<le> 31 \<Longrightarrow> re_d (pad 2 d @ rest) = Some (d, rest)"
proof -
  assume "1 \<le> d" "d \<le> 31"
  then have "d \<in> set [1..<32]" by simp
  with days_closed have "re_d (pad 2 d) = Some (d, [])" by blast
  moreover have "length (pad 2 d) = 2" using \<open>d \<le> 31\<close> by (simp add: length_pad2)
  ultimately show ?thesis by (simp add: re_d_append)
qed

lemma re_M_pad2: "mi < 60 \<Longrightarrow> re_M (pad 2 mi @ rest) = Some (mi, rest)"
proof -
  assume "mi < 60"
  then have "mi \<in> set [0..<60]" by simp
  with minutes_closed have "re_M (pad 2 mi) = Some (mi, [])" by blast
  moreover have "length (pad 2 mi) = 2" using \<open>mi < 60\<close> by (simp add: length_pad2)
  ultimately show ?thesis by (simp add: re_M_append)
qed

lemma re_m_hour:
  assumes "1 \<le> h" "h \<le> 12" "hs = show_nat h \<or> hs = pad 2 h"
  shows "re_m (hs @ CHR '':'' # rest) = Some (h, CHR '':'' # rest) \<and> hs \<noteq> [] \<and> \<not> is_space (hd hs)"
proof -
  from assms have mem: "h \<in> set [1..<13]" by simp
  with hours_closed have c: "re_m (show_nat h @ '':'') = Some (h, '':'')"
    "length (show_nat h @ '':'') \<ge> 2" "\<not> is_space (hd (show_nat h))" "\<not> is_space (hd (pad 2 h))"
    by blast+
  have l2: "length (pad 2 h) = 2" using assms(2) by (simp add: length_pad2)
  from assms(3) show ?thesis
  proof
    assume hs: "hs = show_nat h"
    from c(2) obtain a b cs where abc: "show_nat h @ '':'' = a # b # cs"
      by (cases "show_nat h @ '':''"; cases "tl (show_nat h @ '':'')") auto
    have "re_m ((show_nat h @ '':'') @ rest) = map_option (\<lambda>(v, r). (v, r @ rest)) (re_m (show_nat h @ '':''))"
      unfolding abc by (simp split: if_splits)
    then have "re_m (hs @ CHR '':'' # rest) = Some (h, CHR '':'' # rest)"
      using c(1) hs by simp
    moreover have "show_nat h \<noteq> []" by (subst show_nat.simps) simp
    ultimately show ?thesis using c(3) hs by simp
  next
    assume hs: "hs = pad 2 h"
    then have "re_m (hs @ CHR '':'' # rest) = Some (h, CHR '':'' # rest)"
      using re_m_pad2 [OF assms(1,2)] by simp
    moreover have "hs \<noteq> []" using l2 hs by auto
    ultimately show ?thesis using c(4) hs by simp
  qed
qed

lemma days_in_month_le: "days_in_month y m \<le> 31"
  by (simp add: days_in_month_def)

lemma strptime_last_updated_roundtrip:
  assumes y: "1 \<le> y" "y \<le> 9999" and m: "1 \<le> m" "m \<le> 12"
    and d: "1 \<le> d" "d \<le> days_in_month y m"
    and h: "1 \<le> h" "h \<le> 12" "hs = show_nat h \<or> hs = pad 2 h"
    and mi: "mi < 60"
    and ap: "lower ap = ''am'' \<or> lower ap = ''pm''"
    and z: "lower z \<in> set (zone_names tz)" "z \<noteq> []" "\<not> is_space (hd z)"
  shows "strptime_last_updated tz
           (pad 4 y @ ''-'' @ pad 2 m @ ''-'' @ pad 2 d @ '' '' @ hs @ '':'' @ pad 2 mi @ ap @ '' '' @ z)
         = Inr \<lparr>dt_year = y, dt_month = m, dt_day = d, dt_hour = hour24 h (lower ap = ''pm''),
                dt_minute = mi, dt_second = 0, dt_microsecond = 0\<rparr>"
proof -
  have d31: "d \<le> 31" using d(2) days_in_month_le [of y m] by simp
  have y4: "y < 10000" using y(2) by simp
  note hh = re_m_hour [OF h]
  have ws1: "re_ws (CHR '' '' # hs @ CHR '':'' # pad 2 mi @ ap @ CHR '' '' # z)
      = Some (hs @ CHR '':'' # pad 2 mi @ ap @ CHR '' '' # z)"
    using hh by (intro re_ws_one) auto
  have ws2: "re_ws (CHR '' '' # z) = Some z" using z(2,3) by (rule re_ws_one)
  show ?thesis
    unfolding strptime_last_updated_def
    using d(2) y(1)
    by (simp add: re_Y_pad4 [OF y4] lit_Cons re_m_pad2 [OF m] re_d_pad2 [OF d(1) d31] ws1
        hh re_M_pad2 [OF mi] re_p_either [OF ap] ws2 re_Z_whole [OF z(1)] valid_date_def)
qed

lemma row_in_upsert_row: "r \<in> set (upsert_row r rows)"
proof (cases "slug r \<noteq> SNull \<and> slug r \<in> slug ` set rows")
  case True
  then obtain x where "x \<in> set rows" "slug x = slug r" by auto
  then have "do_update r x \<in> set (upsert_row r rows)"
    using True by (force simp: upsert_row_def)
  then show ?thesis using \<open>slug x = slug r\<close> by (simp add: do_update_same)
next
  case False
  then have "upsert_row r rows = rows @ [r]" by (auto simp: upsert_row_def)
  then show ?thesis by simp
qed

lemma pad_2_0: "pad 2 0 = ''00''"
  by code_simp

lemma convert_last_updated_roundtrip:
  assumes "1 \<le> y" "y \<le> 9999" "1 \<le> m" "m \<le> 12" "1 \<le> d" "d \<le> days_in_month y m"
    "1 \<le> h" "h \<le> 12" "hs = show_nat h \<or> hs = pad 2 h" "mi < 60"
    "lower ap = ''am'' \<or> lower ap = ''pm''"
    "lower z \<in> set (zone_names tz)" "z \<noteq> []" "\<not> is_space (hd z)"
  shows "convert_last_updated tz (JStr
           (pad 4 y @ ''-'' @ pad 2 m @ ''-'' @ pad 2 d @ '' '' @ hs @ '':'' @ pad 2 mi @ ap @ '' '' @ z))
         = Inr (JStr (pad 4 y @ ''-'' @ pad 2 m @ ''-'' @ pad 2 d @ '' ''
              @ pad 2 (hour24 h (lower ap = ''pm'')) @ '':'' @ pad 2 mi @ '':00''))"
  using strptime_last_updated_roundtrip [OF assms]
  by (simp add: strftime_canonical_def strftime_date_def pad_2_0)


text \<open>
  C9, as the code has it. After a successful \<open>insert_plugin_into_db\<close> the table holds the
  row of this plugin, and in that row:
  \<^item> a \<open>last_updated\<close> given as \<open>YYYY-MM-DD h:mm\<close> or \<open>YYYY-MM-DD hh:mm\<close>, followed by
    AM or PM in either case, a blank and a zone name that \<open>strptime\<close> knows, is stored as
    \<open>YYYY-MM-DD HH:MM:00\<close> on the 24 hour clock (years 1000 to 9999);
  \<^item> an absent \<open>version\<close> or \<open>download_link\<close> is stored as \<open>N/A\<close>, an absent
    \<open>active_installs\<close> or \<open>downloaded\<close> as 0;
  \<^item> an absent \<open>last_updated\<close> or \<open>added\<close> is stored as NULL.
\<close>

theorem stored_fields_normalised_or_default:
  assumes ins: "insert_plugin_into_db tz cur (JObj kvs) = Inr cur1"
  shows "\<exists>r rows1 sl a. PluginData cur1 = Some rows1 \<and> r \<in> set rows1
      \<and> map_of kvs ''slug'' = Some sl \<and> bind_param sl = Inr a \<and> slug r = text_affinity a
      \<and> (\<forall>y m d h mi hs ap z.
           1000 \<le> y \<and> y \<le> 9999 \<and> 1 \<le> m \<and> m \<le> 12 \<and> 1 \<le> d \<and> d \<le> days_in_month y m
           \<and> 1 \<le> h \<and> h \<le> 12 \<and> (hs = show_nat h \<or> hs = pad 2 h) \<and> mi < 60
           \<and> (lower ap = ''am'' \<or> lower ap = ''pm'')
           \<and> lower z \<in> set (zone_names tz) \<and> z \<noteq> [] \<and> \<not> is_space (hd z)
           \<and> map_of kvs ''last_updated'' = Some (JStr
                (pad 4 y @ ''-'' @ pad 2 m @ ''-'' @ pad 2 d @ '' '' @ hs @ '':'' @ pad 2 mi
                   @ ap @ '' '' @ z))
           \<longrightarrow> last_updated r = SText
                (pad 4 y @ ''-'' @ pad 2 m @ ''-'' @ pad 2 d @ '' ''
                   @ pad 2 (hour24 h (lower ap = ''pm'')) @ '':'' @ pad 2 mi @ '':00''))
      \<and> (map_of kvs ''last_updated'' = None \<longrightarrow> last_updated r = SNull)
      \<and> (map_of kvs ''added'' = None \<longrightarrow> added_date r = SNull)
      \<and> (map_of kvs ''version'' = None \<longrightarrow> version r = SText ''N/A'')
      \<and> (map_of kvs ''download_link'' = None \<longrightarrow> download_link r = SText ''N/A'')
      \<and> (map_of kvs ''active_installs'' = None \<longrightarrow> active_installs r = SInt 0)
      \<and> (map_of kvs ''downloaded'' = None \<longrightarrow> downloaded r = SInt 0)"
proof -
  from ins obtain data rows vs r where d: "plugin_data tz (JObj kvs) = Inr data"
    and t: "PluginData cur = Some rows" and b: "bind_params data = Inr vs"
    and v: "values_row vs = Some r"
    and c: "cur1 = cur\<lparr>PluginData := Some (upsert_row r rows)\<rparr>"
    unfolding insert_plugin_Inr by blast
  from d obtain lu ad sl ai dl where
    lu: "(let v = (case map_of kvs ''last_updated'' of None \<Rightarrow> JNull | Some v \<Rightarrow> v)
       in if truthy v then convert_last_updated tz v else Inr v) = Inr lu"
    and ad: "(let v = (case map_of kvs ''added'' of None \<Rightarrow> JNull | Some v \<Rightarrow> v)
       in if truthy v then convert_added v else Inr v) = Inr ad"
    and sl: "map_of kvs ''slug'' = Some sl"
    and ai: "py_int (case map_of kvs ''active_installs'' of None \<Rightarrow> JInt 0 | Some v \<Rightarrow> v) = Inr ai"
    and dl: "py_int (case map_of kvs ''downloaded'' of None \<Rightarrow> JInt 0 | Some v \<Rightarrow> v) = Inr dl"
    and data: "data = [sl, case map_of kvs ''version'' of None \<Rightarrow> JStr ''N/A'' | Some v \<Rightarrow> v,
              JInt ai, JInt dl, lu, ad,
              case map_of kvs ''download_link'' of None \<Rightarrow> JStr ''N/A'' | Some v \<Rightarrow> v]"
    unfolding plugin_data_Inr by blast
  from b [unfolded data bind_params_7] obtain a' b' c' d' e' f' g' where
    bs: "bind_param sl = Inr a'"
      "bind_param (case map_of kvs ''version'' of None \<Rightarrow> JStr ''N/A'' | Some v \<Rightarrow> v) = Inr b'"
      "bind_param (JInt ai) = Inr c'" "bind_param (JInt dl) = Inr d'"
      "bind_param lu = Inr e'" "bind_param ad = Inr f'"
      "bind_param (case map_of kvs ''download_link'' of None \<Rightarrow> JStr ''N/A'' | Some v \<Rightarrow> v) = Inr g'"
    and vs: "vs = [a', b', c', d', e', f', g']"
    by blast
  from v vs have r: "r = \<lparr>slug = text_affinity a', version = text_affinity b', active_installs = c',
                downloaded = d', last_updated = e', added_date = f',
                download_link = text_affinity g'\<rparr>"
    by (simp add: values_row_def)
  have p1: "PluginData cur1 = Some (upsert_row r rows)" using c by simp
  have p2: "r \<in> set (upsert_row r rows)" by (rule row_in_upsert_row)
  have p3: "slug r = text_affinity a'" using r by simp
  have q1: "last_updated r = SText
                (pad 4 y @ ''-'' @ pad 2 m @ ''-'' @ pad 2 d @ '' ''
                   @ pad 2 (hour24 h (lower ap = ''pm'')) @ '':'' @ pad 2 mi @ '':00'')"
    if w: "1000 \<le> y \<and> y \<le> 9999 \<and> 1 \<le> m \<and> m \<le> 12 \<and> 1 \<le> d \<and> d \<le> days_in_month y m
           \<and> 1 \<le> h \<and> h \<le> 12 \<and> (hs = show_nat h \<or> hs = pad 2 h) \<and> mi < 60
           \<and> (lower ap = ''am'' \<or> lower ap = ''pm'')
           \<and> lower z \<in> set (zone_names tz) \<and> z \<noteq> [] \<and> \<not> is_space (hd z)
           \<and> map_of kvs ''last_updated'' = Some (JStr
                (pad 4 y @ ''-'' @ pad 2 m @ ''-'' @ pad 2 d @ '' '' @ hs @ '':'' @ pad 2 mi
                   @ ap @ '' '' @ z))"
    for y m d h mi hs ap z
  proof -
    have "convert_last_updated tz (JStr
           (pad 4 y @ ''-'' @ pad 2 m @ ''-'' @ pad 2 d @ '' '' @ hs @ '':'' @ pad 2 mi @ ap @ '' '' @ z))
         = Inr (JStr (pad 4 y @ ''-'' @ pad 2 m @ ''-'' @ pad 2 d @ '' ''
              @ pad 2 (hour24 h (lower ap = ''pm'')) @ '':'' @ pad 2 mi @ '':00''))"
      using w by (intro convert_last_updated_roundtrip) auto
    with lu w have "lu = JStr (pad 4 y @ ''-'' @ pad 2 m @ ''-'' @ pad 2 d @ '' ''
              @ pad 2 (hour24 h (lower ap = ''pm'')) @ '':'' @ pad 2 mi @ '':00'')"
      by (simp add: Let_def)
    with bs(5) r show ?thesis by simp
  qed
  have q2: "last_updated r = SNull" if "map_of kvs ''last_updated'' = None"
    using that lu bs(5) r by auto
  have q3: "added_date r = SNull" if "map_of kvs ''added'' = None"
    using that ad bs(6) r by auto
  have q4: "version r = SText ''N/A''" if "map_of kvs ''version'' = None"
    using that bs(2) r by auto
  have q5: "download_link r = SText ''N/A''" if "map_of kvs ''download_link'' = None"
    using that bs(7) r by auto
  have q6: "active_installs r = SInt 0" if "map_of kvs ''active_installs'' = None"
    using that ai bs(3) r by auto
  have q7: "downloaded r = SInt 0" if "map_of kvs ''downloaded'' = None"
    using that dl bs(4) r by auto
  show ?thesis
    apply (rule exI [of _ r], rule exI [of _ "upsert_row r rows"], rule exI [of _ sl], rule exI [of _ a'])
    using p1 p2 sl bs(1) p3 q1 q2 q3 q4 q5 q6 q7
    by (intro conjI allI impI) assumption+
qed


theorem stored_fields_normalised_or_default_witness:
  "insert_plugin_into_db [] \<lparr>PluginData = Some [], PluginResults = Some []\<rparr>
     (JObj [(''slug'', JStr ''akismet''), (''last_updated'', JStr ''2024-05-14 7:05pm GMT'')])
   = Inr \<lparr>PluginData = Some [\<lparr>slug = SText ''akismet'', version = SText ''N/A'',
        active_installs = SInt 0, downloaded = SInt 0,
        last_updated = SText ''2024-05-14 19:05:00'',
        added_date = SNull, download_link = SText ''N/A''\<rparr>], PluginResults = Some []\<rparr>
   \<and> (\<exists>r::plugin_row. last_updated r = SText ''2024-05-14 19:05:00'' \<and> version r = SText ''N/A''
          \<and> added_date r = SNull \<and> active_installs r = SInt 0)"
proof -
  let ?kvs = "[(''slug'', JStr ''akismet''), (''last_updated'', JStr ''2024-05-14 7:05pm GMT'')]"
  have h1: "insert_plugin_into_db [] \<lparr>PluginData = Some [], PluginResults = Some []\<rparr> (JObj ?kvs)
     = Inr \<lparr>PluginData = Some [\<lparr>slug = SText ''akismet'', version = SText ''N/A'',
        active_installs = SInt 0, downloaded = SInt 0,
        last_updated = SText ''2024-05-14 19:05:00'',
        added_date = SNull, download_link = SText ''N/A''\<rparr>], PluginResults = Some []\<rparr>"
    by code_simp
  from stored_fields_normalised_or_default [OF h1] obtain r :: plugin_row where
    n: "\<forall>y m d h mi hs ap z.
           1000 \<le> y \<and> y \<le> 9999 \<and> 1 \<le> m \<and> m \<le> 12 \<and> 1 \<le> d \<and> d \<le> days_in_month y m
           \<and> 1 \<le> h \<and> h \<le> 12 \<and> (hs = show_nat h \<or> hs = pad 2 h) \<and> mi < 60
           \<and> (lower ap = ''am'' \<or> lower ap = ''pm'')
           \<and> lower z \<in> set (zone_names []) \<and> z \<noteq> [] \<and> \<not> is_space (hd z)
           \<and> map_of ?kvs ''last_updated'' = Some (JStr
                (pad 4 y @ ''-'' @ pad 2 m @ ''-'' @ pad 2 d @ '' '' @ hs @ '':'' @ pad 2 mi
                   @ ap @ '' '' @ z))
           \<longrightarrow> last_updated r = SText
                (pad 4 y @ ''-'' @ pad 2 m @ ''-'' @ pad 2 d @ '' ''
                   @ pad 2 (hour24 h (lower ap = ''pm'')) @ '':'' @ pad 2 mi @ '':00'')"
    and v: "map_of ?kvs ''version'' = None \<longrightarrow> version r = SText ''N/A''"
    and a: "map_of ?kvs ''added'' = None \<longrightarrow> added_date r = SNull"
    and i: "map_of ?kvs ''active_installs'' = None \<longrightarrow> active_installs r = SInt 0"
    by (elim exE conjE) (rule that, assumption+)
  have c: "1000 \<le> (2024::nat) \<and> (2024::nat) \<le> 9999 \<and> 1 \<le> (5::nat) \<and> (5::nat) \<le> 12 \<and> 1 \<le> (14::nat)
       \<and> 14 \<le> days_in_month 2024 5 \<and> 1 \<le> (7::nat) \<and> (7::nat) \<le> 12
       \<and> (show_nat 7 = show_nat 7 \<or> show_nat 7 = pad 2 7) \<and> (5::nat) < 60
       \<and> (lower ''pm'' = ''am'' \<or> lower ''pm'' = ''pm'')
       \<and> lower ''GMT'' \<in> set (zone_names []) \<and> ''GMT'' \<noteq> [] \<and> \<not> is_space (hd ''GMT'')
       \<and> map_of ?kvs ''last_updated'' = Some (JStr
            (pad 4 2024 @ ''-'' @ pad 2 5 @ ''-'' @ pad 2 14 @ '' '' @ show_nat 7 @ '':'' @ pad 2 5
               @ ''pm'' @ '' '' @ ''GMT''))"
    by code_simp
  have e: "pad 4 2024 @ ''-'' @ pad 2 5 @ ''-'' @ pad 2 14 @ '' ''
             @ pad 2 (hour24 7 (lower ''pm'' = ''pm'')) @ '':'' @ pad 2 5 @ '':00''
           = ''2024-05-14 19:05:00''"
    by code_simp
  from n c have "last_updated r = SText (pad 4 2024 @ ''-'' @ pad 2 5 @ ''-'' @ pad 2 14 @ '' ''
             @ pad 2 (hour24 7 (lower ''pm'' = ''pm'')) @ '':'' @ pad 2 5 @ '':00'')"
    by blast
  with e have "last_updated r = SText ''2024-05-14 19:05:00''" by simp
  moreover from v have "version r = SText ''N/A''" by simp
  moreover from a have "added_date r = SNull" by simp
  moreover from i have "active_installs r = SInt 0" by simp
  ultimately show ?thesis using h1 by blast
qed


text \<open>The claim as stated gives every absent field the sentinel \<open>N/A\<close> or zero; an absent
  \<open>last_updated\<close> (and \<open>added\<close>) is stored as NULL, which is neither.\<close>

theorem absent_last_updated_counterexample:
  "insert_plugin_into_db [] \<lparr>PluginData = Some [], PluginResults = Some []\<rparr>
     (JObj [(''slug'', JStr ''akismet'')])
   = Inr \<lparr>PluginData = Some [\<lparr>slug = SText ''akismet'', version = SText ''N/A'',
        active_installs = SInt 0, downloaded = SInt 0, last_updated = SNull,
        added_date = SNull, download_link = SText ''N/A''\<rparr>], PluginResults = Some []\<rparr>
   \<and> SNull \<noteq> SText ''N/A'' \<and> SNull \<noteq> SInt 0"
  by code_simp

section \<open>Pagination\<close>

lemma accepted_insert:
  assumes "accepted tz plugin" "PluginData cur = Some rows"
  shows "\<exists>cur' rows'. insert_plugin_into_db tz cur plugin = Inr cur' \<and> PluginData cur' = Some rows'"
proof -
  from assms(1) obtain data vs where d: "plugin_data tz plugin = Inr data" "bind_params data = Inr vs"
    by (auto simp: accepted_def bnd_def split: sum.splits)
  have "\<exists>kvs. plugin = JObj kvs" using d(1) by (cases plugin) (auto simp: plugin_data_def)
  then obtain kvs where "plugin = JObj kvs" by blast
  with d(1) have "plugin_data tz (JObj kvs) = Inr data" by simp
  then have "length data = 7" unfolding plugin_data_Inr by auto
  with d(2) have "length vs = 7" using bind_params_length by fastforce
  then obtain r where "values_row vs = Some r" using values_row_7' by blast
  with d assms(2) show ?thesis unfolding insert_plugin_Inr by auto
qed

lemma insert_plugins_accepted:
  "list_all (accepted tz) ps \<Longrightarrow> PluginData cur = Some rows \<Longrightarrow>
   \<exists>cur' rows'. insert_plugins tz cur ps = Inr cur' \<and> PluginData cur' = Some rows'"
proof (induction ps arbitrary: cur rows)
  case Nil
  then show ?case by simp
next
  case (Cons p ps)
  from Cons.prems have "accepted tz p" by simp
  from accepted_insert [OF this Cons.prems(2)] obtain cur1 rows1 where
    1: "insert_plugin_into_db tz cur p = Inr cur1" "PluginData cur1 = Some rows1" by blast
  from Cons.IH [OF _ 1(2)] Cons.prems(1) obtain cur' rows' where
    "insert_plugins tz cur1 ps = Inr cur'" "PluginData cur' = Some rows'" by auto
  with 1 show ?case by simp
qed

lemma page_ok_cases:
  assumes "page_ok tz r"
  obtains kvs ps where "r = Response 200 (Some (JObj kvs))" "map_of kvs ''plugins'' = Some (JArr ps)"
    "list_all (accepted tz) ps"
proof -
  from assms obtain st body where r: "r = Response st body"
    by (cases r) (simp_all add: page_ok_def)
  with assms obtain j where b: "body = Some j"
    by (cases body) (simp_all add: page_ok_def)
  with assms r obtain kvs where j: "j = JObj kvs"
    by (cases j) (simp_all add: page_ok_def)
  from assms r b j have st: "st = 200"
    and c: "(case map_of kvs ''plugins'' of
             Some (JArr plugins) \<Rightarrow> list_all (accepted tz) plugins | _ \<Rightarrow> False)"
    by (simp_all add: page_ok_def)
  from c obtain v where v: "map_of kvs ''plugins'' = Some v"
    by (cases "map_of kvs ''plugins''") simp_all
  with c obtain ps where ps: "v = JArr ps" by (cases v) simp_all
  with c v have "list_all (accepted tz) ps" by simp
  with r b j st v ps show ?thesis by (intro that) simp_all
qed

lemma reports_pages_cases:
  assumes "reports_pages n r"
  obtains kvs info where "r = Response 200 (Some (JObj kvs))" "map_of kvs ''info'' = Some (JObj info)"
    "map_of info ''pages'' = Some (JInt (int n))"
proof -
  from assms obtain st body where r: "r = Response st body"
    by (cases r) (simp_all add: reports_pages_def)
  with assms obtain j where b: "body = Some j"
    by (cases body) (simp_all add: reports_pages_def)
  with assms r obtain kvs where j: "j = JObj kvs"
    by (cases j) (simp_all add: reports_pages_def)
  from assms r b j have st: "st = 200"
    and c: "(case map_of kvs ''info'' of
             Some (JObj info) \<Rightarrow> map_of info ''pages'' = Some (JInt (int n)) | _ \<Rightarrow> False)"
    by (simp_all add: reports_pages_def)
  from c obtain v where v: "map_of kvs ''info'' = Some v"
    by (cases "map_of kvs ''info''") simp_all
  with c obtain info where i: "v = JObj info" by (cases v) simp_all
  with c v have "map_of info ''pages'' = Some (JInt (int n))" by simp
  with r b j st v i show ?thesis by (intro that) simp_all
qed

lemma truthy_has_key: "map_of kvs k = Some v \<Longrightarrow> truthy (JObj kvs)"
  by (cases kvs) auto

lemma store_pages_ok:
  "\<forall>p\<in>set pages. page_ok tz (api p) \<Longrightarrow> PluginData cur = Some rows \<Longrightarrow>
   \<exists>cur' rows'. store_pages api tz pages cur requested = (Inr cur', requested @ pages)
      \<and> PluginData cur' = Some rows'"
proof (induction pages arbitrary: cur rows requested)
  case Nil
  then show ?case by simp
next
  case (Cons p pages)
  from Cons.prems(1) have "page_ok tz (api p)" by simp
  then obtain kvs ps where r: "api p = Response 200 (Some (JObj kvs))"
    "map_of kvs ''plugins'' = Some (JArr ps)" "list_all (accepted tz) ps"
    by (rule page_ok_cases)
  have g: "get_plugins api p requested = (Inr (JObj kvs), requested @ [p])"
    using r(1) by (simp add: get_plugins_def)
  have l: "lacks ''plugins'' (JObj kvs) = Inr False"
    using r(2) truthy_has_key [OF r(2)] by (simp add: lacks_def)
  from insert_plugins_accepted [OF r(3) Cons.prems(2)] obtain cur1 rows1 where
    i: "insert_plugins tz cur ps = Inr cur1" "PluginData cur1 = Some rows1" by blast
  from Cons.IH [OF _ i(2), where requested = "requested @ [p]"] Cons.prems(1) obtain cur' rows' where
    "store_pages api tz pages cur1 (requested @ [p]) = (Inr cur', (requested @ [p]) @ pages)"
    "PluginData cur' = Some rows'" by auto
  then show ?case using g l i(1) r(2) by simp
qed

lemma upto_nat: "map nat [1..int n] = [1..<Suc n]"
proof (induction n)
  case 0
  then show ?case by simp
next
  case (Suc n)
  have "[1..int (Suc n)] = [1..int n] @ [int (Suc n)]"
    using upto_rec2 [of 1 "int (Suc n)"] by simp
  then show ?case using Suc by simp
qed


text \<open>
  C4, as the code has it. When the first page reports \<open>n\<close> pages and every page from 1
  to \<open>n\<close> is well formed, \<open>write_plugins_to_db\<close> returns normally after \<open>n + 1\<close> requests:
  page 1 to learn the number of pages, then the pages 1 to \<open>n\<close> in increasing order, page 1
  for the second time.
\<close>

theorem write_plugins_requests:
  assumes first: "reports_pages n (api 1)"
    and pages: "\<forall>p\<in>set [1..<Suc n]. page_ok tz (api p)"
    and table: "PluginData cur = Some rows"
  shows "\<exists>cur'. write_plugins_to_db api tz cur requested = (Inr cur', requested @ 1 # [1..<Suc n])"
proof -
  from first obtain kvs info where r: "api 1 = Response 200 (Some (JObj kvs))"
    "map_of kvs ''info'' = Some (JObj info)" "map_of info ''pages'' = Some (JInt (int n))"
    by (rule reports_pages_cases)
  have g: "get_plugins api 1 requested = (Inr (JObj kvs), requested @ [1])"
    using r(1) by (simp add: get_plugins_def)
  have l: "lacks ''info'' (JObj kvs) = Inr False"
    using r(2) truthy_has_key [OF r(2)] by (simp add: lacks_def)
  have pr: "bnd (bnd (py_item (JObj kvs) ''info'') (\<lambda>info. py_item info ''pages'')) page_range
      = Inr [1..<Suc n]"
    using r(2,3) by (simp add: upto_nat)
  from store_pages_ok [OF pages table, where requested = "requested @ [1]"] obtain cur' where
    "store_pages api tz [1..<Suc n] cur (requested @ [1]) = (Inr cur', (requested @ [1]) @ [1..<Suc n])"
    by blast
  then show ?thesis using g l pr by (simp add: write_plugins_to_db_def)
qed



theorem write_plugins_requests_witness:
  "\<exists>cur'. write_plugins_to_db three_pages [] \<lparr>PluginData = Some [], PluginResults = Some []\<rparr> []
      = (Inr cur', [1, 1, 2, 3])"
proof -
  have 1: "reports_pages 3 (three_pages 1)" by code_simp
  have 2: "\<forall>p\<in>set [1..<Suc 3]. page_ok [] (three_pages p)" by code_simp
  have 3: "PluginData \<lparr>PluginData = Some [], PluginResults = Some []\<rparr> = Some []" by simp
  have 4: "[] @ 1 # [1..<Suc 3] = [1, 1, 2, 3::nat]" by code_simp
  from write_plugins_requests [OF 1 2 3, of "[]"] 4 show ?thesis by simp
qed


text \<open>The claim as stated has exactly \<open>n\<close> requests, page 1 fetched once; on three pages the
  code issues four requests, 1, 1, 2, 3.\<close>

theorem write_plugins_requests_counterexample:
  "snd (write_plugins_to_db three_pages [] \<lparr>PluginData = Some [], PluginResults = Some []\<rparr> [])
     = [1, 1, 2, 3]
   \<and> length (snd (write_plugins_to_db three_pages []
         \<lparr>PluginData = Some [], PluginResults = Some []\<rparr> [])) = 4"
  by code_simp

section \<open>A database without the schema\<close>

text \<open>
  C8 on the code. On a database whose tables were never created, \<open>connect_to_db\<close>
  without \<open>create_schema\<close> succeeds, and the upsert, the selection and the append of a
  finding each end in the engine's OperationalError (\<open>no such table\<close>). The handlers of
  \<open>dbutils.py\<close> catch \<open>sqlite3.ProgrammingError\<close> only, so the \<open>SystemExit\<close> with the
  message about \<open>--create-schema\<close> is not raised there; it is raised when a parameter
  cannot be bound, on a table that exists (last conjunct).
\<close>

theorem missing_schema_raises_operational_error:
  "connect_to_db False \<lparr>PluginData = None, PluginResults = None\<rparr>
     = Inr \<lparr>PluginData = None, PluginResults = None\<rparr>
   \<and> insert_plugin_into_db [] \<lparr>PluginData = None, PluginResults = None\<rparr>
        (JObj [(''slug'', JStr ''akismet'')])
      = Inl (OperationalError ''no such table: PluginData'')
   \<and> select_plugins_for_download
        \<lparr>dt_year = 2026, dt_month = 11, dt_day = 4, dt_hour = 12, dt_minute = 0,
         dt_second = 0, dt_microsecond = 0\<rparr>
        \<lparr>PluginData = None, PluginResults = None\<rparr> 0
      = Inl (OperationalError ''no such table: PluginData'')
   \<and> insert_result_into_db \<lparr>PluginData = None, PluginResults = None\<rparr> (JStr ''akismet'')
        (JObj [(''path'', JStr ''akismet/akismet.php''), (''check_id'', JStr ''php.lang.security''),
               (''start'', JObj [(''line'', JInt 10)]), (''end'', JObj [(''line'', JInt 12)]),
               (''extra'', JObj [(''lines'', JStr ''eval($x);'')])])
      = Inl (OperationalError ''no such table: PluginResults'')
   \<and> insert_plugin_into_db [] \<lparr>PluginData = Some [], PluginResults = Some []\<rparr>
        (JObj [(''slug'', JArr [])])
      = Inl (SystemExit table_missing_message)"
  by code_simp

section \<open>Selection for download\<close>

text \<open>
  C2 on the code. A plugin with 50 active installs, last updated 2024-11-04 at 6:00pm, is
  written to an empty table and selected with threshold 10 when the clock reads
  2026-11-04 12:00:00. Two years before the clock is 2024-11-04 12:00:00, six hours before
  the update, so the update is within two years; the selection is empty all the same. The
  stored text \<open>2024-11-04 18:00:00\<close> has a blank where the parameter
  \<open>2024-11-04T12:00:00\<close> has a \<open>T\<close>, and the blank is the smaller byte. A plugin updated a
  day later is selected.
\<close>

theorem select_misses_boundary_day:
  "insert_plugin_into_db [] \<lparr>PluginData = Some [], PluginResults = Some []\<rparr>
     (JObj [(''slug'', JStr ''akismet''), (''active_installs'', JInt 50),
            (''last_updated'', JStr ''2024-11-04 6:00pm GMT''),
            (''download_link'', JStr ''https://downloads.wordpress.org/plugin/akismet.zip'')])
   = Inr \<lparr>PluginData = Some [\<lparr>slug = SText ''akismet'', version = SText ''N/A'',
        active_installs = SInt 50, downloaded = SInt 0,
        last_updated = SText ''2024-11-04 18:00:00'', added_date = SNull,
        download_link = SText ''https://downloads.wordpress.org/plugin/akismet.zip''\<rparr>],
      PluginResults = Some []\<rparr>
   \<and> strptime_last_updated [] ''2024-11-04 6:00pm GMT''
      = Inr \<lparr>dt_year = 2024, dt_month = 11, dt_day = 4, dt_hour = 18, dt_minute = 0,
              dt_second = 0, dt_microsecond = 0\<rparr>
   \<and> minus_two_years \<lparr>dt_year = 2026, dt_month = 11, dt_day = 4, dt_hour = 12,
        dt_minute = 0, dt_second = 0, dt_microsecond = 0\<rparr>
      = Inr \<lparr>dt_year = 2024, dt_month = 11, dt_day = 4, dt_hour = 12, dt_minute = 0,
              dt_second = 0, dt_microsecond = 0\<rparr>
   \<and> not_before
        \<lparr>dt_year = 2024, dt_month = 11, dt_day = 4, dt_hour = 18, dt_minute = 0,
         dt_second = 0, dt_microsecond = 0\<rparr>
        \<lparr>dt_year = 2024, dt_month = 11, dt_day = 4, dt_hour = 12, dt_minute = 0,
         dt_second = 0, dt_microsecond = 0\<rparr>
   \<and> select_plugins_for_download
        \<lparr>dt_year = 2026, dt_month = 11, dt_day = 4, dt_hour = 12, dt_minute = 0,
         dt_second = 0, dt_microsecond = 0\<rparr>
        \<lparr>PluginData = Some [\<lparr>slug = SText ''akismet'', version = SText ''N/A'',
           active_installs = SInt 50, downloaded = SInt 0,
           last_updated = SText ''2024-11-04 18:00:00'', added_date = SNull,
           download_link = SText ''https://downloads.wordpress.org/plugin/akismet.zip''\<rparr>],
         PluginResults = Some []\<rparr> 10
      = Inr []
   \<and> select_plugins_for_download
        \<lparr>dt_year = 2026, dt_month = 11, dt_day = 4, dt_hour = 12, dt_minute = 0,
         dt_second = 0, dt_microsecond = 0\<rparr>
        \<lparr>PluginData = Some [\<lparr>slug = SText ''akismet'', version = SText ''N/A'',
           active_installs = SInt 50, downloaded = SInt 0,
           last_updated = SText ''2024-11-05 18:00:00'', added_date = SNull,
           download_link = SText ''https://downloads.wordpress.org/plugin/akismet.zip''\<rparr>],
         PluginResults = Some []\<rparr> 10
      = Inr [(SText ''akismet'', SText ''https://downloads.wordpress.org/plugin/akismet.zip'')]"
  by code_simp

section \<open>Files and extraction\<close>

lemma lookup_update:
  "p \<noteq> [] \<Longrightarrow> lookup (AList.update p n fls) q = (if q = p then Some n else lookup fls q)"
  by (simp add: lookup_def update_conv')

lemma map_of_filter_out:
  "\<not> P k \<Longrightarrow> map_of (filter (\<lambda>e. P (fst e)) xs) k = None"
  by (induction xs) auto

lemma makedirs_preserves:
  "makedirs fls base cs = (e, fls') \<Longrightarrow> lookup fls q = Some n \<Longrightarrow> lookup fls' q = Some n"
proof (induction fls base cs arbitrary: e fls' rule: makedirs.induct)
  case (1 fls base)
  then show ?case by simp
next
  case (2 fls base c cs)
  show ?case
  proof (cases "lookup fls (base @ [c])")
    case None
    with 2(4) have "q \<noteq> base @ [c]" by auto
    then have "lookup (AList.update (base @ [c]) Dir fls) q = Some n"
      using 2(4) by (simp add: lookup_update)
    moreover have "makedirs (AList.update (base @ [c]) Dir fls) (base @ [c]) cs = (e, fls')"
      using 2(3) None by simp
    ultimately show ?thesis using 2(1) [OF None] by blast
  next
    case (Some nd)
    show ?thesis
    proof (cases nd)
      case Dir
      with Some 2(3) have "makedirs fls (base @ [c]) cs = (e, fls')" by simp
      then show ?thesis using 2(2) [OF Some Dir] 2(4) by blast
    next
      case (File x)
      with Some 2(3) have "fls' = fls" by simp
      then show ?thesis using 2(4) by simp
    qed
  qed
qed

lemma makedirs_creates:
  "makedirs fls base cs = (None, fls') \<Longrightarrow> lookup fls base = Some Dir \<Longrightarrow>
   lookup fls' (base @ cs) = Some Dir"
proof (induction fls base cs arbitrary: fls' rule: makedirs.induct)
  case (1 fls base)
  then show ?case by simp
next
  case (2 fls base c cs)
  show ?case
  proof (cases "lookup fls (base @ [c])")
    case None
    have "lookup (AList.update (base @ [c]) Dir fls) (base @ [c]) = Some Dir"
      by (simp add: lookup_update)
    moreover have "makedirs (AList.update (base @ [c]) Dir fls) (base @ [c]) cs = (None, fls')"
      using 2(3) None by simp
    ultimately show ?thesis using 2(1) [OF None] by simp
  next
    case (Some nd)
    show ?thesis
    proof (cases nd)
      case Dir
      with Some 2(3) have "makedirs fls (base @ [c]) cs = (None, fls')" by simp
      then show ?thesis using 2(2) [OF Some Dir] Some Dir by simp
    next
      case (File x)
      with Some 2(3) show ?thesis by simp
    qed
  qed
qed

lemma lookup_root [simp]: "lookup fls [] = Some Dir"
  by (simp add: lookup_def)

lemma write_file_preserves:
  assumes "write_file fls p c = (e, fls')" "lookup fls q = Some n" "q \<noteq> p \<or> n = Dir"
  shows "lookup fls' q = Some n"
proof -
  obtain e1 f1 where m: "makedirs fls [] (butlast p) = (e1, f1)" by (cases "makedirs fls [] (butlast p)")
  from makedirs_preserves [OF m assms(2)] have l1: "lookup f1 q = Some n" .
  show ?thesis
  proof (cases e1)
    case (Some x)
    with m assms(1) have "fls' = f1" by (simp add: write_file_def)
    with l1 show ?thesis by simp
  next
    case None
    show ?thesis
    proof (cases "lookup f1 p = Some Dir")
      case True
      with m None assms(1) have "fls' = f1" by (simp add: write_file_def)
      with l1 show ?thesis by simp
    next
      case False
      then have "p \<noteq> []" by auto
      from False m None assms(1) have f: "fls' = AList.update p (File c) f1"
        by (auto simp: write_file_def split: option.splits node.splits)
      from False l1 assms(3) have "q \<noteq> p" by auto
      with f l1 \<open>p \<noteq> []\<close> show ?thesis by (simp add: lookup_update)
    qed
  qed
qed

lemma write_file_writes:
  assumes "write_file fls p c = (None, fls')"
  shows "lookup fls' p = Some (File c)"
proof -
  obtain e1 f1 where m: "makedirs fls [] (butlast p) = (e1, f1)" by (cases "makedirs fls [] (butlast p)")
  with assms have e1: "e1 = None" by (cases e1) (simp_all add: write_file_def)
  with m assms have nd: "lookup f1 p \<noteq> Some Dir" and f: "fls' = AList.update p (File c) f1"
    by (auto simp: write_file_def split: option.splits node.splits)
  from nd have "p \<noteq> []" by auto
  with f show ?thesis by (simp add: lookup_update)
qed

lemma extract_member_preserves:
  assumes "extract_member fls m = (e, fls')" "lookup fls q = Some n" "q \<noteq> member_path m \<or> n = Dir"
  shows "lookup fls' q = Some n"
proof (cases m)
  case (DirEntry p)
  with assms show ?thesis using makedirs_preserves by simp
next
  case (FileEntry p c)
  with assms show ?thesis using write_file_preserves by simp
next
  case (CorruptEntry p oc)
  show ?thesis
  proof (cases oc)
    case None
    obtain e1 f1 where m1: "makedirs fls [] (butlast p) = (e1, f1)" by (cases "makedirs fls [] (butlast p)")
    with assms(1) CorruptEntry None have "fls' = f1" by (cases e1) simp_all
    with makedirs_preserves [OF m1 assms(2)] show ?thesis by simp
  next
    case (Some c)
    obtain e1 f1 where w1: "write_file fls p c = (e1, f1)" by (cases "write_file fls p c")
    with assms(1) CorruptEntry Some have "fls' = f1" by (cases e1) simp_all
    moreover have "lookup f1 q = Some n"
      using write_file_preserves [OF w1 assms(2)] assms(3) CorruptEntry by simp
    ultimately show ?thesis by simp
  qed
qed

lemma extract_member_present:
  assumes "extract_member fls m = (None, fls')"
  shows "present fls' m"
proof (cases m)
  case (DirEntry p)
  with assms have "makedirs fls [] p = (None, fls')" by simp
  from makedirs_creates [OF this] DirEntry show ?thesis by simp
next
  case (FileEntry p c)
  with assms show ?thesis using write_file_writes by simp
next
  case (CorruptEntry p oc)
  with assms show ?thesis
    by (cases oc) (auto split: prod.splits option.splits)
qed

lemma present_preserved:
  assumes "extract_member fls m = (e, fls')" "present fls m'" "member_path m' \<noteq> member_path m"
  shows "present fls' m'"
  using assms extract_member_preserves [OF assms(1)]
  by (cases m') auto

lemma extractall_preserves_present:
  "extractall fls ms = (e, fls') \<Longrightarrow> present fls m' \<Longrightarrow> member_path m' \<notin> member_path ` set ms \<Longrightarrow>
   present fls' m'"
proof (induction ms arbitrary: fls)
  case Nil
  then show ?case by simp
next
  case (Cons m ms)
  obtain e1 f1 where x: "extract_member fls m = (e1, f1)" by (cases "extract_member fls m")
  from Cons.prems(3) have ne: "member_path m' \<noteq> member_path m" by auto
  from present_preserved [OF x Cons.prems(2) ne] have p1: "present f1 m'" .
  show ?case
  proof (cases e1)
    case None
    with x Cons.prems(1) have "extractall f1 ms = (e, fls')" by simp
    from Cons.IH [OF this p1] Cons.prems(3) show ?thesis by auto
  next
    case (Some a)
    with x Cons.prems(1) have "fls' = f1" by simp
    with p1 show ?thesis by simp
  qed
qed

lemma extractall_present:
  "extractall fls ms = (None, fls') \<Longrightarrow> distinct (map member_path ms) \<Longrightarrow>
   list_all (present fls') ms"
proof (induction ms arbitrary: fls)
  case Nil
  then show ?case by simp
next
  case (Cons m ms)
  obtain e1 f1 where x: "extract_member fls m = (e1, f1)" by (cases "extract_member fls m")
  with Cons.prems(1) have e1: "e1 = None" by (cases e1) simp_all
  with x Cons.prems(1) have r: "extractall f1 ms = (None, fls')" by simp
  from x e1 have "present f1 m" using extract_member_present by simp
  from extractall_preserves_present [OF r this] Cons.prems(2) have "present fls' m" by auto
  moreover from Cons.IH [OF r] Cons.prems(2) have "list_all (present fls') ms" by simp
  ultimately show ?case by simp
qed

lemma extractall_append:
  "extractall fls (xs @ ys) =
     (case extractall fls xs of (Some e, f) \<Rightarrow> (Some e, f) | (None, f) \<Rightarrow> extractall f ys)"
  by (induction xs arbitrary: fls) (auto split: prod.splits option.splits)

lemma extractall_intact_no_BadZipFile:
  "list_all intact ms \<Longrightarrow> extractall fls ms = (Some e, fls') \<Longrightarrow> e = OSError"
proof (induction ms arbitrary: fls)
  case Nil
  then show ?case by simp
next
  case (Cons m ms)
  have mk: "\<And>f b cs e f'. makedirs f b cs = (Some e, f') \<Longrightarrow> e = OSError"
  proof -
    fix f b cs e f' show "makedirs f b cs = (Some e, f') \<Longrightarrow> e = OSError"
      by (induction f b cs rule: makedirs.induct) (auto split: option.splits node.splits)
  qed
  obtain e1 f1 where x: "extract_member fls m = (e1, f1)" by (cases "extract_member fls m")
  show ?case
  proof (cases e1)
    case None
    with x Cons.prems(2) have "extractall f1 ms = (Some e, fls')" by simp
    with Cons.IH Cons.prems(1) show ?thesis by simp
  next
    case (Some a)
    with x Cons.prems(2) have "a = e" by simp
    with x Some Cons.prems(1) mk show ?thesis
      by (cases m) (auto simp: write_file_def split: prod.splits option.splits node.splits)
  qed
qed

section \<open>The replace policy\<close>

lemma trace_emit [simp]: "trace (emit e w) = trace w @ [e]" "files (emit e w) = files w"
  by (simp_all add: emit_def)

lemma trace_say [simp]:
  "trace (say verbose m w) = trace w @ (if verbose then [Printed m] else [])"
  "files (say verbose m w) = files w"
  by (simp_all add: say_def)

lemma fetch_fails:
  assumes "download_fails net link"
  shows "\<exists>w'. fetch_and_extract net name link verbose w = (None, w') \<and> files w' = files w"
  using assms
  by (auto simp: download_fails_def fetch_and_extract_def Let_def split: download.splits)

lemma fetch_trace:
  "\<exists>rest. trace (snd (fetch_and_extract net name link verbose w)) =
     trace w @ (if verbose then [Printed (Downloading name)] else []) @ [Requested link] @ rest"
proof (cases "net link")
  case Unreachable
  then show ?thesis by (simp add: fetch_and_extract_def Let_def)
next
  case (Served st body)
  show ?thesis
  proof (cases "error_status st")
    case True
    with Served show ?thesis by (simp add: fetch_and_extract_def Let_def)
  next
    case False
    show ?thesis
    proof (cases body)
      case NotAZip
      with Served False show ?thesis by (simp add: fetch_and_extract_def Let_def)
    next
      case (Zip members)
      obtain e f where x: "extractall (files w) members = (e, f)"
        by (cases "extractall (files w) members")
      show ?thesis
      proof (cases e)
        case None
        with Served False Zip x show ?thesis by (simp add: fetch_and_extract_def Let_def)
      next
        case (Some a)
        with Served False Zip x show ?thesis
          by (cases a) (simp_all add: fetch_and_extract_def Let_def)
      qed
    qed
  qed
qed

lemma rmtree_dir:
  assumes "lookup fls p = Some Dir" "p \<noteq> []"
  shows "rmtree fls p = Inr (filter (\<lambda>e. \<not> under p (fst e)) fls)"
    and "under p q \<Longrightarrow> lookup (filter (\<lambda>e. \<not> under p (fst e)) fls) q = None"
proof -
  show "rmtree fls p = Inr (filter (\<lambda>e. \<not> under p (fst e)) fls)"
    using assms by (simp add: rmtree_def)
  assume u: "under p q"
  with assms(2) have "q \<noteq> []" by (auto simp: under_def)
  moreover have "map_of (filter (\<lambda>e. \<not> under p (fst e)) fls) q = None"
    using u map_of_filter_out [of "\<lambda>k. \<not> under p k" q fls] by simp
  ultimately show "lookup (filter (\<lambda>e. \<not> under p (fst e)) fls) q = None"
    by (simp add: lookup_def)
qed


text \<open>
  C7: the target directory exists. Without \<open>replace_downloads\<close> the call returns without
  an exception, the files are as before and the trace has no network request that it did
  not have before. With \<open>replace_downloads\<close> the directory is removed with everything
  below it (\<open>rmtree\<close> succeeds and no path under the slug is left), and only then the
  download runs, on the files without the directory: in the trace the removal stands
  before the request.
\<close>

theorem replace_policy:
  assumes "lookup (files w) [name] = Some Dir"
  shows "(\<exists>w'. download_and_extract_plugin net (SText name) link False verbose w = (None, w')
            \<and> files w' = files w
            \<and> filter is_request (trace w') = filter is_request (trace w))
       \<and> (\<exists>fls rest. rmtree (files w) [name] = Inr fls
            \<and> (\<forall>q. under [name] q \<longrightarrow> lookup fls q = None)
            \<and> download_and_extract_plugin net (SText name) link True verbose w
                = fetch_and_extract net name link verbose
                    (emit (Removed [name]) ((say verbose (DeletingExisting name) w)\<lparr>files := fls\<rparr>))
            \<and> trace (snd (download_and_extract_plugin net (SText name) link True verbose w))
                = trace w @ (if verbose then [Printed (DeletingExisting name)] else [])
                    @ [Removed [name]]
                    @ (if verbose then [Printed (Downloading name)] else [])
                    @ [Requested link] @ rest)"
proof (intro conjI)
  have ex: "path_exists (files w) [name]" using assms by (simp add: path_exists_def)
  then show "\<exists>w'. download_and_extract_plugin net (SText name) link False verbose w = (None, w')
            \<and> files w' = files w
            \<and> filter is_request (trace w') = filter is_request (trace w)"
    by (simp add: download_and_extract_plugin_def)
  let ?fls = "filter (\<lambda>e. \<not> under [name] (fst e)) (files w)"
  let ?w1 = "emit (Removed [name]) ((say verbose (DeletingExisting name) w)\<lparr>files := ?fls\<rparr>)"
  have r: "rmtree (files w) [name] = Inr ?fls"
    using assms by (intro rmtree_dir) simp_all
  have n: "\<forall>q. under [name] q \<longrightarrow> lookup ?fls q = None"
    using rmtree_dir(2) [OF assms] by simp
  have d: "download_and_extract_plugin net (SText name) link True verbose w
      = fetch_and_extract net name link verbose ?w1"
    using ex r by (simp add: download_and_extract_plugin_def)
  from fetch_trace [of net name link verbose ?w1] obtain rest where
    "trace (snd (fetch_and_extract net name link verbose ?w1)) =
     trace ?w1 @ (if verbose then [Printed (Downloading name)] else []) @ [Requested link] @ rest"
    by blast
  then have t: "trace (snd (download_and_extract_plugin net (SText name) link True verbose w))
      = trace w @ (if verbose then [Printed (DeletingExisting name)] else [])
          @ [Removed [name]] @ (if verbose then [Printed (Downloading name)] else [])
          @ [Requested link] @ rest"
    using d by (simp add: say_def emit_def)
  from r n d t show "\<exists>fls rest. rmtree (files w) [name] = Inr fls
            \<and> (\<forall>q. under [name] q \<longrightarrow> lookup fls q = None)
            \<and> download_and_extract_plugin net (SText name) link True verbose w
                = fetch_and_extract net name link verbose
                    (emit (Removed [name]) ((say verbose (DeletingExisting name) w)\<lparr>files := fls\<rparr>))
            \<and> trace (snd (download_and_extract_plugin net (SText name) link True verbose w))
                = trace w @ (if verbose then [Printed (DeletingExisting name)] else [])
                    @ [Removed [name]]
                    @ (if verbose then [Printed (Downloading name)] else [])
                    @ [Requested link] @ rest"
    by blast
qed

theorem replace_policy_witness:
  "(\<exists>w'. download_and_extract_plugin example_source (SText ''akismet'')
            (SText ''https://downloads.wordpress.org/plugin/akismet.zip'') False False
            \<lparr>files = [([''akismet''], Dir), ([''akismet'', ''old.php''], File (Other ''old''))],
             trace = []\<rparr> = (None, w')
          \<and> files w' = [([''akismet''], Dir), ([''akismet'', ''old.php''], File (Other ''old''))]
          \<and> filter is_request (trace w') = [])
   \<and> (\<exists>rest. trace (snd (download_and_extract_plugin example_source (SText ''akismet'')
          (SText ''https://downloads.wordpress.org/plugin/akismet.zip'') True False
          \<lparr>files = [([''akismet''], Dir), ([''akismet'', ''old.php''], File (Other ''old''))],
           trace = []\<rparr>))
        = [Removed [''akismet''],
           Requested (SText ''https://downloads.wordpress.org/plugin/akismet.zip'')] @ rest)"
proof -
  let ?w = "\<lparr>files = [([''akismet''], Dir), ([''akismet'', ''old.php''], File (Other ''old''))],
            trace = []\<rparr>"
  let ?link = "SText ''https://downloads.wordpress.org/plugin/akismet.zip''"
  have h: "lookup (files ?w) [''akismet''] = Some Dir" by (simp add: lookup_def)
  note r = replace_policy [OF h, where net = example_source and link = ?link and verbose = False]
  from r have "\<exists>w'. download_and_extract_plugin example_source (SText ''akismet'') ?link False False ?w
        = (None, w')
      \<and> files w' = [([''akismet''], Dir), ([''akismet'', ''old.php''], File (Other ''old''))]
      \<and> filter is_request (trace w') = []"
    by simp
  moreover from r obtain rest where
    "trace (snd (download_and_extract_plugin example_source (SText ''akismet'') ?link True False ?w))
      = trace ?w @ (if False then [Printed (DeletingExisting ''akismet'')] else [])
          @ [Removed [''akismet'']] @ (if False then [Printed (Downloading ''akismet'')] else [])
          @ [Requested ?link] @ rest"
    by blast
  then have "\<exists>rest. trace (snd (download_and_extract_plugin example_source (SText ''akismet'') ?link True False ?w))
      = [Removed [''akismet''], Requested ?link] @ rest" by simp
  ultimately show ?thesis by blast
qed


section \<open>What a fetch leaves in the slug's directory\<close>

lemma fetch_zip:
  assumes "net link = Served st (Zip members)" "\<not> error_status st"
    and "extractall (files w) members = (e, f)"
  shows "fst (fetch_and_extract net name link verbose w) = (if e = Some BadZipFile then None else e)"
    and "files (snd (fetch_and_extract net name link verbose w)) = f"
proof -
  from assms(2) have c: "error_status st = False" by simp
  show "fst (fetch_and_extract net name link verbose w) = (if e = Some BadZipFile then None else e)"
  proof (cases e)
    case None
    with assms(1,3) c show ?thesis by (simp add: fetch_and_extract_def Let_def)
  next
    case (Some a)
    with assms(1,3) c show ?thesis by (cases a) (simp_all add: fetch_and_extract_def Let_def)
  qed
  show "files (snd (fetch_and_extract net name link verbose w)) = f"
  proof (cases e)
    case None
    with assms(1,3) c show ?thesis by (simp add: fetch_and_extract_def Let_def)
  next
    case (Some a)
    with assms(1,3) c show ?thesis by (cases a) (simp_all add: fetch_and_extract_def Let_def)
  qed
qed

lemma download_reduces:
  assumes "\<forall>c. lookup (files w) [name] \<noteq> Some (File c)"
    and "\<not> (path_exists (files w) [name] \<and> \<not> replace)"
  shows "\<exists>w1. download_and_extract_plugin net (SText name) link replace verbose w
           = fetch_and_extract net name link verbose w1
         \<and> files w1 = (if path_exists (files w) [name] \<and> replace
                        then filter (\<lambda>e. \<not> under [name] (fst e)) (files w) else files w)"
proof (cases "path_exists (files w) [name]")
  case False
  then show ?thesis by (auto simp: download_and_extract_plugin_def)
next
  case True
  with assms(2) have r: replace by simp
  from True assms(1) have "lookup (files w) [name] = Some Dir"
    by (cases "lookup (files w) [name]") (auto simp: path_exists_def intro: node.exhaust)
  then have "rmtree (files w) [name] = Inr (filter (\<lambda>e. \<not> under [name] (fst e)) (files w))"
    by (intro rmtree_dir) simp_all
  with True r show ?thesis
    by (auto simp: download_and_extract_plugin_def intro!: exI)
qed

lemma corrupt_member_raises: "\<exists>e f. extract_member fls (CorruptEntry p c) = (Some e, f)"
  by (cases c) (auto split: prod.splits option.splits)


text \<open>
  C6, as the code has it. The slug's path is not a regular file. (1) When the download
  fails (no answer, an error status, a body that is not a zip archive), the call returns
  without an exception and writes nothing: the files are those before the call, less the
  slug's directory if it was there and \<open>replace_downloads\<close> was set. (2) When the archive
  has no damaged member and distinct member names, and the call returns without an
  exception after extracting, every member is in place. (3) When a member is damaged and
  the call returns without an exception, the members before the damaged one are in place
  all the same: the code extracts straight into the target and removes nothing on failure.
\<close>

theorem extraction_outcomes:
  assumes nofile: "\<forall>c. lookup (files w) [name] \<noteq> Some (File c)"
  shows "(download_fails net link \<longrightarrow>
           (\<exists>w'. download_and_extract_plugin net (SText name) link replace verbose w = (None, w')
              \<and> files w' = (if path_exists (files w) [name] \<and> replace
                             then filter (\<lambda>e. \<not> under [name] (fst e)) (files w)
                             else files w)))
       \<and> (\<forall>st members w'.
            net link = Served st (Zip members) \<and> \<not> error_status st
            \<and> list_all intact members \<and> distinct (map member_path members)
            \<and> \<not> (path_exists (files w) [name] \<and> \<not> replace)
            \<and> download_and_extract_plugin net (SText name) link replace verbose w = (None, w')
            \<longrightarrow> list_all (present (files w')) members)
       \<and> (\<forall>st ms p c rest w'.
            net link = Served st (Zip (ms @ CorruptEntry p c # rest))
            \<and> \<not> error_status st
            \<and> list_all intact ms \<and> distinct (map member_path ms @ [p])
            \<and> \<not> (path_exists (files w) [name] \<and> \<not> replace)
            \<and> download_and_extract_plugin net (SText name) link replace verbose w = (None, w')
            \<longrightarrow> list_all (present (files w')) ms)"
proof (intro conjI impI allI)
  assume df: "download_fails net link"
  show "\<exists>w'. download_and_extract_plugin net (SText name) link replace verbose w = (None, w')
              \<and> files w' = (if path_exists (files w) [name] \<and> replace
                             then filter (\<lambda>e. \<not> under [name] (fst e)) (files w)
                             else files w)"
  proof (cases "path_exists (files w) [name] \<and> \<not> replace")
    case True
    then show ?thesis by (simp add: download_and_extract_plugin_def)
  next
    case False
    from download_reduces [OF nofile False] obtain w1 where
      w1: "download_and_extract_plugin net (SText name) link replace verbose w
           = fetch_and_extract net name link verbose w1"
      "files w1 = (if path_exists (files w) [name] \<and> replace
                        then filter (\<lambda>e. \<not> under [name] (fst e)) (files w) else files w)"
      by blast
    from fetch_fails [OF df, of name verbose w1] w1 show ?thesis by auto
  qed
next
  fix st members w'
  assume a: "net link = Served st (Zip members) \<and> \<not> error_status st
            \<and> list_all intact members \<and> distinct (map member_path members)
            \<and> \<not> (path_exists (files w) [name] \<and> \<not> replace)
            \<and> download_and_extract_plugin net (SText name) link replace verbose w = (None, w')"
  then have np: "\<not> (path_exists (files w) [name] \<and> \<not> replace)" by simp
  from download_reduces [OF nofile np] obtain w1 where
    w1: "download_and_extract_plugin net (SText name) link replace verbose w
           = fetch_and_extract net name link verbose w1" by blast
  obtain e f where x: "extractall (files w1) members = (e, f)"
    by (cases "extractall (files w1) members")
  from a have n: "net link = Served st (Zip members)" and s: "\<not> error_status st" by simp_all
  from w1 a have fe: "fetch_and_extract net name link verbose w1 = (None, w')" by simp
  from fetch_zip [where net = net and link = link, OF n s x, of name verbose] fe
  have r: "(if e = Some BadZipFile then None else e) = None" and f: "files w' = f" by simp_all
  have "e = None"
  proof (cases e)
    case None then show ?thesis .
  next
    case (Some b)
    with x a have "b = OSError" using extractall_intact_no_BadZipFile by blast
    with Some r show ?thesis by simp
  qed
  with x a have "list_all (present f) members" using extractall_present by blast
  with f show "list_all (present (files w')) members" by simp
next
  fix st ms p c rest w'
  assume a: "net link = Served st (Zip (ms @ CorruptEntry p c # rest))
            \<and> \<not> error_status st
            \<and> list_all intact ms \<and> distinct (map member_path ms @ [p])
            \<and> \<not> (path_exists (files w) [name] \<and> \<not> replace)
            \<and> download_and_extract_plugin net (SText name) link replace verbose w = (None, w')"
  then have np: "\<not> (path_exists (files w) [name] \<and> \<not> replace)" by simp
  from download_reduces [OF nofile np] obtain w1 where
    w1: "download_and_extract_plugin net (SText name) link replace verbose w
           = fetch_and_extract net name link verbose w1" by blast
  obtain e f where x: "extractall (files w1) (ms @ CorruptEntry p c # rest) = (e, f)"
    by (cases "extractall (files w1) (ms @ CorruptEntry p c # rest)")
  from a have n: "net link = Served st (Zip (ms @ CorruptEntry p c # rest))"
    and s: "\<not> error_status st" by simp_all
  from w1 a have fe: "fetch_and_extract net name link verbose w1 = (None, w')" by simp
  from fetch_zip [where net = net and link = link, OF n s x, of name verbose] fe
  have r: "(if e = Some BadZipFile then None else e) = None" and f: "files w' = f" by simp_all
  obtain e0 f0 where x0: "extractall (files w1) ms = (e0, f0)"
    by (cases "extractall (files w1) ms")
  have e0: "e0 = None"
  proof (cases e0)
    case None then show ?thesis .
  next
    case (Some b)
    with x0 a have "b = OSError" using extractall_intact_no_BadZipFile by blast
    with Some x x0 have "e = Some OSError" by (simp add: extractall_append)
    with r show ?thesis by simp
  qed
  from corrupt_member_raises [of f0 p c] obtain e2 f2 where
    c2: "extract_member f0 (CorruptEntry p c) = (Some e2, f2)" by blast
  from x x0 e0 c2 have "f = f2" by (simp add: extractall_append)
  from a have d: "distinct (map member_path ms)" and pn: "p \<notin> member_path ` set ms" by auto
  from x0 e0 d have pr: "list_all (present f0) ms" using extractall_present by blast
  have "list_all (present f2) ms"
    unfolding list_all_iff
  proof
    fix m assume m: "m \<in> set ms"
    with pr have "present f0 m" by (simp add: list_all_iff)
    moreover from m pn have "member_path m \<noteq> member_path (CorruptEntry p c)" by auto
    ultimately show "present f2 m" using present_preserved [OF c2] by blast
  qed
  with f \<open>f = f2\<close> show "list_all (present (files w')) ms" by simp
qed

theorem extraction_outcomes_witness:
  "(\<exists>w'. download_and_extract_plugin example_source (SText ''akismet'') (SText ''N/A'') False False
            \<lparr>files = [], trace = []\<rparr> = (None, w') \<and> files w' = [])
   \<and> list_all (present (files (snd (download_and_extract_plugin example_source (SText ''akismet'')
         (SText ''https://downloads.wordpress.org/plugin/akismet.zip'') False False
         \<lparr>files = [], trace = []\<rparr>))))
        [DirEntry [''akismet''],
         FileEntry [''akismet'', ''akismet.php''] (Other ''<?php''),
         FileEntry [''akismet'', ''readme.txt''] (Other ''Akismet'')]
   \<and> list_all (present (files (snd (download_and_extract_plugin example_source (SText ''broken'')
         (SText ''https://downloads.wordpress.org/plugin/broken.zip'') False False
         \<lparr>files = [], trace = []\<rparr>))))
        [FileEntry [''broken'', ''broken.php''] (Other ''<?php'')]"
proof -
  let ?w = "\<lparr>files = [], trace = []\<rparr>"
  let ?good = "SText ''https://downloads.wordpress.org/plugin/akismet.zip''"
  let ?bad = "SText ''https://downloads.wordpress.org/plugin/broken.zip''"
  have n: "\<forall>c. lookup (files ?w) [name] \<noteq> Some (File c)" for name by (simp add: lookup_def)
  have f: "download_fails example_source (SText ''N/A'')" by code_simp
  from extraction_outcomes [OF n [of "''akismet''"], where net = example_source
      and link = "SText ''N/A''" and replace = False and verbose = False] f
  have 1: "\<exists>w'. download_and_extract_plugin example_source (SText ''akismet'') (SText ''N/A'') False False ?w
             = (None, w') \<and> files w' = []"
    by (simp add: path_exists_def lookup_def)
  have g: "example_source ?good = Served 200 (Zip [DirEntry [''akismet''],
         FileEntry [''akismet'', ''akismet.php''] (Other ''<?php''),
         FileEntry [''akismet'', ''readme.txt''] (Other ''Akismet'')])
       \<and> \<not> error_status 200
       \<and> list_all intact [DirEntry [''akismet''],
         FileEntry [''akismet'', ''akismet.php''] (Other ''<?php''),
         FileEntry [''akismet'', ''readme.txt''] (Other ''Akismet'')]
       \<and> distinct (map member_path [DirEntry [''akismet''],
         FileEntry [''akismet'', ''akismet.php''] (Other ''<?php''),
         FileEntry [''akismet'', ''readme.txt''] (Other ''Akismet'')])
       \<and> \<not> (path_exists (files ?w) [''akismet''] \<and> \<not> False)
       \<and> fst (download_and_extract_plugin example_source (SText ''akismet'') ?good False False ?w) = None"
    by code_simp
  from extraction_outcomes [OF n [of "''akismet''"], where net = example_source
      and link = ?good and replace = False and verbose = False, THEN conjunct2, THEN conjunct1] g
  have 2: "list_all (present (files (snd (download_and_extract_plugin example_source (SText ''akismet'')
         ?good False False ?w))))
        [DirEntry [''akismet''],
         FileEntry [''akismet'', ''akismet.php''] (Other ''<?php''),
         FileEntry [''akismet'', ''readme.txt''] (Other ''Akismet'')]"
    by (metis prod.collapse)
  have b: "example_source ?bad = Served 200 (Zip ([FileEntry [''broken'', ''broken.php''] (Other ''<?php'')]
          @ CorruptEntry [''broken'', ''readme.txt''] None
          # [FileEntry [''broken'', ''uninstall.php''] (Other ''<?php'')]))
       \<and> \<not> error_status 200
       \<and> list_all intact [FileEntry [''broken'', ''broken.php''] (Other ''<?php'')]
       \<and> distinct (map member_path [FileEntry [''broken'', ''broken.php''] (Other ''<?php'')]
            @ [[''broken'', ''readme.txt'']])
       \<and> \<not> (path_exists (files ?w) [''broken''] \<and> \<not> False)
       \<and> fst (download_and_extract_plugin example_source (SText ''broken'') ?bad False False ?w) = None"
    by code_simp
  from extraction_outcomes [OF n [of "''broken''"], where net = example_source
      and link = ?bad and replace = False and verbose = False, THEN conjunct2, THEN conjunct2] b
  have 3: "list_all (present (files (snd (download_and_extract_plugin example_source (SText ''broken'')
         ?bad False False ?w))))
        [FileEntry [''broken'', ''broken.php''] (Other ''<?php'')]"
    by (metis prod.collapse)
  from 1 2 3 show ?thesis by blast
qed


text \<open>The claim as stated leaves the slug's directory either absent or fully extracted. An
  archive whose second member is damaged leaves the directory with the first member only,
  the failure is handled, and the next call under the skip policy takes the directory for
  a finished download.\<close>

theorem partial_extraction_counterexample:
  "download_and_extract_plugin example_source (SText ''broken'')
      (SText ''https://downloads.wordpress.org/plugin/broken.zip'') False False
      \<lparr>files = [], trace = []\<rparr>
    = (None, \<lparr>files = [([''broken''], Dir),
                        ([''broken'', ''broken.php''], File (Other ''<?php''))],
              trace = [Requested (SText ''https://downloads.wordpress.org/plugin/broken.zip''),
                       Printed (FailedToUnzip ''broken'')]\<rparr>)
   \<and> path_exists [([''broken''], Dir), ([''broken'', ''broken.php''], File (Other ''<?php''))]
        [''broken'']
   \<and> \<not> present [([''broken''], Dir), ([''broken'', ''broken.php''], File (Other ''<?php''))]
          (FileEntry [''broken'', ''uninstall.php''] (Other ''<?php''))
   \<and> download_and_extract_plugin example_source (SText ''broken'')
        (SText ''https://downloads.wordpress.org/plugin/broken.zip'') False False
        \<lparr>files = [([''broken''], Dir), ([''broken'', ''broken.php''], File (Other ''<?php''))],
         trace = []\<rparr>
      = (None, \<lparr>files = [([''broken''], Dir),
                          ([''broken'', ''broken.php''], File (Other ''<?php''))],
                trace = []\<rparr>)"
  by code_simp


section \<open>Admission in batches\<close>

lemma batched_neutral:
  "\<forall>e\<in>set evs. neutral_ev e \<Longrightarrow> batched n d c (evs @ rest) = batched n d c rest"
proof (induction evs)
  case Nil
  then show ?case by simp
next
  case (Cons e evs)
  then show ?case by (cases e) simp_all
qed

lemma fetch_events:
  "\<exists>evs. trace (snd (fetch_and_extract net name link verbose w)) = trace w @ evs
     \<and> (\<forall>e\<in>set evs. neutral_ev e)"
proof (cases "net link")
  case Unreachable
  then show ?thesis by (simp add: fetch_and_extract_def Let_def)
next
  case (Served st body)
  show ?thesis
  proof (cases "error_status st")
    case True
    with Served show ?thesis by (simp add: fetch_and_extract_def Let_def)
  next
    case False
    show ?thesis
    proof (cases body)
      case NotAZip
      with Served False show ?thesis by (simp add: fetch_and_extract_def Let_def)
    next
      case (Zip members)
      obtain e f where x: "extractall (files (emit (Requested link) (say verbose (Downloading name) w))) members = (e, f)"
        by (cases "extractall (files (emit (Requested link) (say verbose (Downloading name) w))) members")
      show ?thesis
      proof (cases e)
        case None
        with Served False Zip x show ?thesis by (simp add: fetch_and_extract_def Let_def)
      next
        case (Some a)
        with Served False Zip x show ?thesis
          by (cases a) (simp_all add: fetch_and_extract_def Let_def)
      qed
    qed
  qed
qed

lemma download_events:
  "\<exists>evs. trace (snd (download_and_extract_plugin net sl link replace verbose w)) = trace w @ evs
     \<and> (\<forall>e\<in>set evs. neutral_ev e)"
proof (cases sl)
  case SNull
  then show ?thesis by (simp add: download_and_extract_plugin_def)
next
  case (SInt i)
  then show ?thesis by (simp add: download_and_extract_plugin_def)
next
  case (SText name)
  show ?thesis
  proof (cases "path_exists (files w) [name]")
    case False
    with SText fetch_events [of net name link verbose w] show ?thesis
      by (simp add: download_and_extract_plugin_def)
  next
    case True
    show ?thesis
    proof (cases replace)
      case False
      with True SText show ?thesis by (simp add: download_and_extract_plugin_def)
    next
      case r: True
      show ?thesis
      proof (cases "rmtree (files w) [name]")
        case (Inl e)
        with True r SText show ?thesis by (simp add: download_and_extract_plugin_def)
      next
        case (Inr fls)
        let ?w1 = "emit (Removed [name]) ((say verbose (DeletingExisting name) w)\<lparr>files := fls\<rparr>)"
        from fetch_events [of net name link verbose ?w1] obtain evs where
          e: "trace (snd (fetch_and_extract net name link verbose ?w1)) = trace ?w1 @ evs"
            "\<forall>e\<in>set evs. neutral_ev e" by blast
        have "trace ?w1 = trace w @ (if verbose then [Printed (DeletingExisting name)] else []) @ [Removed [name]]"
          by (simp add: say_def emit_def)
        with e have "trace (snd (fetch_and_extract net name link verbose ?w1))
            = trace w @ ((if verbose then [Printed (DeletingExisting name)] else []) @ [Removed [name]] @ evs)"
          by simp
        moreover have "\<forall>e\<in>set ((if verbose then [Printed (DeletingExisting name)] else []) @ [Removed [name]] @ evs). neutral_ev e"
          using e(2) by auto
        ultimately show ?thesis using True r SText Inr
          unfolding download_and_extract_plugin_def by (simp del: append_assoc)
      qed
    qed
  qed
qed

lemma gather_events:
  "\<exists>evs. trace (snd (gather net replace verbose ops w)) = trace w @ evs
     \<and> (\<forall>n d c rest. length ops \<le> c \<longrightarrow>
           batched n d c (evs @ rest) = batched n (d \<or> ops \<noteq> []) (c - length ops) rest)"
proof (induction ops arbitrary: w)
  case Nil
  then show ?case by simp
next
  case (Cons op ops)
  obtain e w1 where d: "download_and_extract_plugin net (fst op) (snd op) replace verbose w = (e, w1)"
    by (cases "download_and_extract_plugin net (fst op) (snd op) replace verbose w")
  from download_events [of net "fst op" "snd op" replace verbose w] d obtain evs1 where
    e1: "trace w1 = trace w @ evs1" "\<forall>e\<in>set evs1. neutral_ev e" by auto
  obtain e' w2 where g: "gather net replace verbose ops (emit (Resolved (fst op)) w1) = (e', w2)"
    by (cases "gather net replace verbose ops (emit (Resolved (fst op)) w1)")
  from Cons.IH [of "emit (Resolved (fst op)) w1"] g obtain evs2 where
    e2: "trace w2 = trace (emit (Resolved (fst op)) w1) @ evs2"
      "\<forall>n d c rest. length ops \<le> c \<longrightarrow>
           batched n d c (evs2 @ rest) = batched n (d \<or> ops \<noteq> []) (c - length ops) rest"
    by auto
  have t: "trace (snd (gather net replace verbose (op # ops) w)) = trace w @ (evs1 @ Resolved (fst op) # evs2)"
    using d g e1(1) e2(1) by simp
  have b: "batched n dr c ((evs1 @ Resolved (fst op) # evs2) @ rest)
      = batched n (dr \<or> op # ops \<noteq> []) (c - length (op # ops)) rest"
    if le: "length (op # ops) \<le> c" for n dr c rest
  proof -
    have "batched n dr c ((evs1 @ Resolved (fst op) # evs2) @ rest)
        = batched n dr c (Resolved (fst op) # evs2 @ rest)"
      using batched_neutral [OF e1(2)] by simp
    also have "\<dots> = batched n True (c - 1) (evs2 @ rest)" using le by simp
    also have "\<dots> = batched n True (c - 1 - length ops) rest"
      using e2(2) le by simp
    finally show ?thesis by simp
  qed
  from t b show ?case by blast
qed

lemma admit_all_events:
  "\<exists>evs. trace (snd (admit_all net replace verbose plugins ongoing w)) = trace w @ evs
     \<and> (\<forall>d. length ongoing < 10 \<longrightarrow> (d \<longrightarrow> ongoing = []) \<longrightarrow> batched 10 d (length ongoing) evs)"
proof (induction plugins arbitrary: ongoing w)
  case Nil
  show ?case
  proof (cases "ongoing = []")
    case True
    then show ?thesis by simp
  next
    case False
    from gather_events [of net replace verbose ongoing w] obtain evs where
      e: "trace (snd (gather net replace verbose ongoing w)) = trace w @ evs"
        "\<forall>n d c rest. length ongoing \<le> c \<longrightarrow>
           batched n d c (evs @ rest) = batched n (d \<or> ongoing \<noteq> []) (c - length ongoing) rest"
      by blast
    from e(2) have "batched 10 d (length ongoing) (evs @ []) = batched 10 (d \<or> ongoing \<noteq> []) (length ongoing - length ongoing) []" for d
      by blast
    then have "batched 10 d (length ongoing) evs" for d by simp
    with e(1) False show ?thesis by simp
  qed
next
  case (Cons plugin plugins)
  let ?w1 = "emit (Admitted (fst plugin)) w"
  show ?case
  proof (cases "length (ongoing @ [plugin]) = 10")
    case full: True
    obtain e w' where g: "gather net replace verbose (ongoing @ [plugin]) ?w1 = (e, w')"
      by (cases "gather net replace verbose (ongoing @ [plugin]) ?w1")
    from gather_events [of net replace verbose "ongoing @ [plugin]" ?w1] g obtain evs where
      e: "trace w' = trace ?w1 @ evs"
        "\<forall>n d c rest. length (ongoing @ [plugin]) \<le> c \<longrightarrow>
           batched n d c (evs @ rest)
             = batched n (d \<or> ongoing @ [plugin] \<noteq> []) (c - length (ongoing @ [plugin])) rest"
      by auto
    have b: "batched 10 False 10 (evs @ rest) = batched 10 True 0 rest" for rest
    proof -
      from e(2) have "length (ongoing @ [plugin]) \<le> 10 \<longrightarrow>
          batched 10 False 10 (evs @ rest)
            = batched 10 (False \<or> ongoing @ [plugin] \<noteq> []) (10 - length (ongoing @ [plugin])) rest"
        by blast
      with full show ?thesis by simp
    qed
    show ?thesis
    proof (cases e)
      case (Some x)
      with g full have r: "admit_all net replace verbose (plugin # plugins) ongoing w = (Some x, w')"
        by simp
      have t: "trace (snd (admit_all net replace verbose (plugin # plugins) ongoing w))
          = trace w @ (Admitted (fst plugin) # evs)" using e(1) r by simp
      have bb: "batched 10 d (length ongoing) (Admitted (fst plugin) # evs)"
        if "d \<longrightarrow> ongoing = []" for d
      proof -
        from full have c9: "length ongoing = 9" by simp
        then have nd: "\<not> d" using that by auto
        from b [of "[]"] have "batched 10 False 10 evs" by simp
        with c9 nd show ?thesis by simp
      qed
      show ?thesis
      proof (rule exI [of _ "Admitted (fst plugin) # evs"], intro conjI allI impI)
        fix d assume "length ongoing < 10" "d \<longrightarrow> ongoing = []"
        then show "batched 10 d (length ongoing) (Admitted (fst plugin) # evs)" by (intro bb)
      qed (rule t)
    next
      case None
      with g full have r: "admit_all net replace verbose (plugin # plugins) ongoing w
          = admit_all net replace verbose plugins [] w'" by simp
      from Cons.IH [of "[]" w'] obtain evs2 where
        e2: "trace (snd (admit_all net replace verbose plugins [] w')) = trace w' @ evs2"
          "batched 10 True 0 evs2" by auto
      have t: "trace (snd (admit_all net replace verbose (plugin # plugins) ongoing w))
          = trace w @ (Admitted (fst plugin) # evs @ evs2)"
        using r e(1) e2(1) by simp
      have bb: "batched 10 d (length ongoing) (Admitted (fst plugin) # evs @ evs2)"
        if "d \<longrightarrow> ongoing = []" for d
      proof -
        from full have c9: "length ongoing = 9" by simp
        then have nd: "\<not> d" using that by auto
        from b [of evs2] e2(2) have "batched 10 False 10 (evs @ evs2)" by simp
        with c9 nd show ?thesis by simp
      qed
      show ?thesis
      proof (rule exI [of _ "Admitted (fst plugin) # evs @ evs2"], intro conjI allI impI)
        fix d assume "length ongoing < 10" "d \<longrightarrow> ongoing = []"
        then show "batched 10 d (length ongoing) (Admitted (fst plugin) # evs @ evs2)" by (intro bb)
      qed (rule t)
    qed
  next
    case notfull: False
    then have r: "admit_all net replace verbose (plugin # plugins) ongoing w
        = admit_all net replace verbose plugins (ongoing @ [plugin]) ?w1" by simp
    from Cons.IH [of "ongoing @ [plugin]" ?w1] obtain evs where
      e: "trace (snd (admit_all net replace verbose plugins (ongoing @ [plugin]) ?w1)) = trace ?w1 @ evs"
        "\<forall>d. length (ongoing @ [plugin]) < 10 \<longrightarrow> (d \<longrightarrow> ongoing @ [plugin] = []) \<longrightarrow>
           batched 10 d (length (ongoing @ [plugin])) evs"
      by blast
    have t: "trace (snd (admit_all net replace verbose (plugin # plugins) ongoing w))
        = trace w @ (Admitted (fst plugin) # evs)"
      using r e(1) by simp
    have bb: "batched 10 d (length ongoing) (Admitted (fst plugin) # evs)"
      if "length ongoing < 10" "d \<longrightarrow> ongoing = []" for d
    proof -
      from that(1) notfull have l: "length (ongoing @ [plugin]) < 10" by simp
      from e(2) have "length (ongoing @ [plugin]) < 10 \<longrightarrow> (False \<longrightarrow> ongoing @ [plugin] = []) \<longrightarrow>
           batched 10 False (length (ongoing @ [plugin])) evs" by (rule spec)
      with l have "batched 10 False (Suc (length ongoing)) evs" by simp
      moreover from that(2) have "if d then length ongoing = 0 else True" by simp
      moreover from l have "length ongoing + 1 \<le> 10" by simp
      ultimately show ?thesis by simp
    qed
    show ?thesis
    proof (rule exI [of _ "Admitted (fst plugin) # evs"], intro conjI allI impI)
      fix d assume "length ongoing < 10" "d \<longrightarrow> ongoing = []"
      then show "batched 10 d (length ongoing) (Admitted (fst plugin) # evs)" by (intro bb)
    qed (rule t)
  qed
qed


text \<open>
  C1, as the code has it: the limit is the constant 10 of the loop, not a parameter. For
  every archive source, clock, database, threshold and flags, the events that
  \<open>download_plugins_in_database\<close> adds to the trace keep the batch discipline with bound
  10 from a start with nothing unresolved: never more than 10 operations are admitted and
  not yet resolved, and after the first resolution of a batch nothing is admitted until
  the whole batch is resolved.
\<close>

theorem batches_of_ten:
  "\<exists>evs. trace (snd (download_plugins_in_database net now cur active replace verbose w))
            = trace w @ evs
         \<and> batched 10 False 0 evs"
proof (cases "select_plugins_for_download now cur active")
  case (Inl e)
  then show ?thesis by (simp add: download_plugins_in_database_def)
next
  case (Inr plugins)
  from admit_all_events [of net replace verbose plugins "[]" w] obtain evs where
    "trace (snd (admit_all net replace verbose plugins [] w)) = trace w @ evs"
    "batched 10 False 0 evs" by auto
  with Inr show ?thesis by (auto simp: download_plugins_in_database_def)
qed

theorem batches_of_ten_witness:
  "batched 10 False 0 (trace (snd (download_plugins_in_database example_source example_now
      twelve_plugins 10 False False \<lparr>files = [], trace = []\<rparr>)))"
  using batches_of_ten [of example_source example_now twelve_plugins 10 False False
      "\<lparr>files = [], trace = []\<rparr>"]
  by auto


text \<open>The claim as stated holds the bound for every limit \<open>N\<close>; with twelve selected plugins
  the code has ten operations unresolved at once, more than a limit of 5.\<close>

theorem concurrency_limit_counterexample:
  "\<not> batched 5 False 0 (trace (snd (download_plugins_in_database example_source example_now
      twelve_plugins 10 False False \<lparr>files = [], trace = []\<rparr>)))"
  by code_simp


section \<open>The audit pass\<close>

text \<open>
  C5 on the code. The analyzer fails on \<open>bad\<close> and writes no output file; on \<open>good\<close> it
  succeeds with two findings. With \<open>bad\<close> listed first the failure is printed, then
  \<open>open\<close> raises FileNotFoundError outside any \<open>try\<close>: the run ends there, \<open>good\<close> is never
  audited and no finding is stored. With \<open>good\<close> listed first the run ends in the same
  exception at \<open>bad\<close>, before the third directory. An output file that is not JSON ends the
  run with JSONDecodeError.
\<close>

theorem audit_aborts_on_missing_output:
  "run_semgrep_and_store_results example_semgrep False
      \<lparr>PluginData = Some [], PluginResults = Some []\<rparr>
      \<lparr>files = [([''bad''], Dir), ([''bad'', ''bad.php''], File (Other ''<?php'')),
                ([''good''], Dir), ([''good'', ''good.php''], File (Other ''<?php''))],
       trace = []\<rparr>
    = (Some FileNotFoundError, \<lparr>PluginData = Some [], PluginResults = Some []\<rparr>,
       \<lparr>files = [([''bad''], Dir), ([''bad'', ''bad.php''], File (Other ''<?php'')),
                 ([''good''], Dir), ([''good'', ''good.php''], File (Other ''<?php''))],
        trace = [Printed (SemgrepFailed ''bad'')]\<rparr>)
   \<and> fst (run_semgrep_and_store_results example_semgrep False
        \<lparr>PluginData = Some [], PluginResults = Some []\<rparr>
        \<lparr>files = [([''good''], Dir), ([''good'', ''good.php''], File (Other ''<?php'')),
                  ([''bad''], Dir), ([''bad'', ''bad.php''], File (Other ''<?php'')),
                  ([''zeta''], Dir)],
         trace = []\<rparr>) = Some FileNotFoundError
   \<and> fst (run_semgrep_and_store_results example_semgrep False
        \<lparr>PluginData = Some [], PluginResults = Some []\<rparr>
        \<lparr>files = [([''bad''], Dir), ([''bad'', ''semgrep_output.json''], File (Other ''Traceback'')),
                  ([''good''], Dir), ([''good'', ''good.php''], File (Other ''<?php''))],
         trace = []\<rparr>) = Some JSONDecodeError"
  by code_simp

end
